theory Spec2Isabelle
  imports Main
begin

section \<open>gdown: cached download (gdown/cached\_download.py)\<close>

text \<open>
  The module coordinates a cache of downloaded files. Everything it does beyond string
  manipulation goes through the operating system (\<^verbatim>\<open>os\<close>, \<^verbatim>\<open>os.path\<close>,
  \<^verbatim>\<open>shutil\<close>, \<^verbatim>\<open>tempfile\<close>, \<^verbatim>\<open>filelock\<close>), through \<^verbatim>\<open>hashlib\<close> and through the
  download transport. The embedding makes that environment explicit:
  \<^item> the filesystem is a map from path strings to nodes. A path with trailing slashes
    names the directory spelled without them; beyond that a path is identified with its
    spelling (no normalisation of \<^verbatim>\<open>.\<close>, \<^verbatim>\<open>..\<close> or doubled slashes inside a
    path), and what is said of the node at a given destination is said for a destination
    in normal form. A relative path lives in the current directory, which exists;
  \<^item> what a rename or a file copy can run into besides the shape of the tree (the two
    paths lying on different devices, a device that fills up) is part of the world;
  \<^item> everything observable besides the filesystem (lines printed to the two streams,
    files opened for reading, invocations of the transport, of the lock and of the
    postprocess hook) is appended to a trace;
  \<^item> a Python exception is a value of \<open>exn\<close>; a function that can raise returns
    \<open>(exn + 'a) \<times> world\<close>, the world being the one at the moment of the raise or return.
\<close>

subsection \<open>Exceptions\<close>

datatype exn =
    ValueError string
  | AssertionError string
  | AttributeError string
  | FileExistsError string
  | FileNotFoundError string
  | NotADirectoryError string
  | IsADirectoryError string
  | ShutilError string
  | OSError string
  | TransportError string
  | KeyboardInterrupt

text \<open>\<^verbatim>\<open>except OSError\<close>: the filesystem errors, \<^verbatim>\<open>shutil.Error\<close> among them.\<close>

fun is_OSError :: "exn \<Rightarrow> bool" where
  "is_OSError (FileExistsError _) = True"
| "is_OSError (FileNotFoundError _) = True"
| "is_OSError (NotADirectoryError _) = True"
| "is_OSError (IsADirectoryError _) = True"
| "is_OSError (ShutilError _) = True"
| "is_OSError (OSError _) = True"
| "is_OSError _ = False"

text \<open>\<^verbatim>\<open>except Exception\<close>: everything but the direct children of \<^verbatim>\<open>BaseException\<close>.\<close>

fun is_Exception :: "exn \<Rightarrow> bool" where
  "is_Exception KeyboardInterrupt = False"
| "is_Exception _ = True"

fun is_AssertionError :: "exn \<Rightarrow> bool" where
  "is_AssertionError (AssertionError _) = True"
| "is_AssertionError _ = False"

text \<open>\<^verbatim>\<open>str(e)\<close>, what \<^verbatim>\<open>print(e)\<close> writes.\<close>

fun exn_str :: "exn \<Rightarrow> string" where
  "exn_str (ValueError m) = m"
| "exn_str (AssertionError m) = m"
| "exn_str (AttributeError m) = m"
| "exn_str (FileExistsError m) = m"
| "exn_str (FileNotFoundError m) = m"
| "exn_str (NotADirectoryError m) = m"
| "exn_str (IsADirectoryError m) = m"
| "exn_str (ShutilError m) = m"
| "exn_str (OSError m) = m"
| "exn_str (TransportError m) = m"
| "exn_str KeyboardInterrupt = []"

subsection \<open>The world: filesystem, devices and trace\<close>

datatype node = File string | Dir

datatype event =
    Stdout string
  | Stderr string
  | Opened string
  | Download "string option" string bool
  | Locked string
  | Postprocess string

text \<open>
  \<open>cross_device src dst\<close>: the two paths lie on different devices, so that
  \<^verbatim>\<open>os.rename\<close> between them fails. \<open>quota p\<close>: the number of bytes after which a
  write to the file at \<open>p\<close> fails, when there is such a limit.
\<close>

record world =
  nodes :: "string \<rightharpoonup> node"
  trace :: "event list"
  cross_device :: "string \<Rightarrow> string \<Rightarrow> bool"
  quota :: "string \<Rightarrow> nat option"

type_synonym 'a result = "(exn + 'a) \<times> world"

definition emit :: "event \<Rightarrow> world \<Rightarrow> world" where
  "emit ev w = w\<lparr>trace := trace w @ [ev]\<rparr>"

text \<open>\<^verbatim>\<open>print(msg)\<close> unless \<^verbatim>\<open>quiet\<close>.\<close>

definition say :: "bool \<Rightarrow> string \<Rightarrow> world \<Rightarrow> world" where
  "say quiet msg w = (if \<not> quiet then emit (Stdout msg) w else w)"

fun is_Download :: "event \<Rightarrow> bool" where
  "is_Download (Download _ _ _) = True"
| "is_Download _ = False"

subsection \<open>\<^verbatim>\<open>os.path\<close> (posixpath)\<close>

definition is_root :: "string \<Rightarrow> bool" where
  "is_root p = (p \<noteq> [] \<and> list_all (\<lambda>c. c = CHR ''/'') p)"

text \<open>\<^verbatim>\<open>osp.join(a, b)\<close> for two components.\<close>

definition join :: "string \<Rightarrow> string \<Rightarrow> string" where
  "join a b =
     (if b \<noteq> [] \<and> hd b = CHR ''/'' then b
      else if a = [] \<or> last a = CHR ''/'' then a @ b
      else a @ ''/'' @ b)"

text \<open>
  \<^verbatim>\<open>osp.dirname(p)\<close>: everything up to and including the last slash, with the trailing
  slashes removed unless nothing else is left.
\<close>

definition dirname :: "string \<Rightarrow> string" where
  "dirname p =
     (let head = rev (dropWhile (\<lambda>c. c \<noteq> CHR ''/'') (rev p))
      in if head \<noteq> [] \<and> \<not> is_root head
         then rev (dropWhile (\<lambda>c. c = CHR ''/'') (rev head))
         else head)"

definition basename :: "string \<Rightarrow> string" where
  "basename p = rev (takeWhile (\<lambda>c. c \<noteq> CHR ''/'') (rev p))"

text \<open>A path without its trailing slashes; the root stays.\<close>

definition strip_slashes :: "string \<Rightarrow> string" where
  "strip_slashes p = rev (dropWhile (\<lambda>c. c = CHR ''/'') (rev p))"

definition key :: "string \<Rightarrow> string" where
  "key p = (if is_root p then p else strip_slashes p)"

definition trailing :: "string \<Rightarrow> bool" where
  "trailing p = (p \<noteq> [] \<and> last p = CHR ''/'')"

text \<open>The components of a path, between its slashes.\<close>

fun components :: "string \<Rightarrow> string list" where
  "components [] = [[]]"
| "components (c # cs) =
     (if c = CHR ''/'' then [] # components cs
      else (case components cs of [] \<Rightarrow> [[c]] | x # xs \<Rightarrow> (c # x) # xs))"

text \<open>
  A path in normal form, the spelling \<^verbatim>\<open>os.path.normpath\<close> gives: not empty, no
  trailing slash, and no component that is empty, \<^verbatim>\<open>.\<close> or \<^verbatim>\<open>..\<close> (the empty
  component before the leading slash of an absolute path aside).
\<close>

definition normal :: "string \<Rightarrow> bool" where
  "normal p =
     (p \<noteq> [] \<and> last p \<noteq> CHR ''/''
      \<and> list_all (\<lambda>x. x \<noteq> [] \<and> x \<noteq> ''.'' \<and> x \<noteq> ''..'')
            (if hd p = CHR ''/'' then tl (components p) else components p))"

text \<open>
  What a path resolves to. The empty path resolves to nothing and the root always to a
  directory; a path with trailing slashes resolves to the directory of that name, if it
  is one; every other path is looked up in the map.
\<close>

definition lookup :: "world \<Rightarrow> string \<Rightarrow> node option" where
  "lookup w p =
     (if p = [] then None
      else if is_root p then Some Dir
      else if trailing p then
        (case nodes w (strip_slashes p) of Some Dir \<Rightarrow> Some Dir | _ \<Rightarrow> None)
      else nodes w p)"

text \<open>\<^verbatim>\<open>osp.exists(p)\<close>\<close>

definition exists :: "world \<Rightarrow> string \<Rightarrow> bool" where
  "exists w p = (lookup w p \<noteq> None)"

definition put :: "string \<Rightarrow> node \<Rightarrow> world \<Rightarrow> world" where
  "put p n w = w\<lparr>nodes := (nodes w)(p \<mapsto> n)\<rparr>"

fun is_file :: "node option \<Rightarrow> bool" where
  "is_file (Some (File c)) = True"
| "is_file _ = False"

text \<open>The directory that holds \<open>p\<close> is there: the current directory, the root or a stored one.\<close>

definition parent_ok :: "world \<Rightarrow> string \<Rightarrow> bool" where
  "parent_ok w p = (dirname p = [] \<or> lookup w (dirname p) = Some Dir)"

subsection \<open>\<^verbatim>\<open>os.makedirs\<close>, \<^verbatim>\<open>tempfile.mkdtemp\<close>, \<^verbatim>\<open>shutil.move\<close>, \<^verbatim>\<open>shutil.rmtree\<close>\<close>

text \<open>The proper ancestors of a path: its prefixes that end just before a slash.\<close>

definition ancestors :: "string \<Rightarrow> string list" where
  "ancestors p =
     [take i p. i \<leftarrow> [1..<length p], p ! i = CHR ''/'', p ! (i - 1) \<noteq> CHR ''/'']"

text \<open>
  \<^verbatim>\<open>os.makedirs(name)\<close> with \<^verbatim>\<open>exist_ok=False\<close>, trailing slashes of the name
  aside: a NUL character is a \<^verbatim>\<open>ValueError\<close>, the empty name and a name that exists
  are \<^verbatim>\<open>OSError\<close>s, as is an ancestor that is a regular file; otherwise the missing
  ancestors and the leaf are created.
\<close>

definition makedirs :: "string \<Rightarrow> world \<Rightarrow> unit result" where
  "makedirs name w =
     (let d = key name
      in if CHR 0x00 \<in> set name then (Inl (ValueError ''embedded null byte''), w)
         else if d = [] then (Inl (FileNotFoundError name), w)
         else if exists w d then (Inl (FileExistsError name), w)
         else if list_ex (\<lambda>a. is_file (lookup w a)) (ancestors d)
           then (Inl (NotADirectoryError name), w)
         else (Inr (), foldr (\<lambda>a. put a Dir) (ancestors d @ [d]) w))"

text \<open>
  \<^verbatim>\<open>tempfile.mkdtemp(dir=d)\<close>: the first candidate name that is free under \<open>d\<close>. The
  candidate names are the random generator's and a parameter; the generator draws them
  from letters, digits and the underscore, so a name is not empty and has no slash.
\<close>

definition usable :: "string \<Rightarrow> bool" where
  "usable n = (n \<noteq> [] \<and> CHR ''/'' \<notin> set n)"

definition mkdtemp :: "string list \<Rightarrow> string \<Rightarrow> world \<Rightarrow> string result" where
  "mkdtemp candidates d w =
     (case lookup w d of
        None \<Rightarrow> (Inl (FileNotFoundError d), w)
      | Some (File c) \<Rightarrow> (Inl (NotADirectoryError d), w)
      | Some Dir \<Rightarrow>
          (case find (\<lambda>n. usable n \<and> \<not> exists w (join d n)) candidates of
             None \<Rightarrow> (Inl (FileExistsError ''No usable temporary directory name found''), w)
           | Some n \<Rightarrow> (Inr (join d n), put (join d n) Dir w)))"

text \<open>A path is inside a directory tree: the directory itself or anything below it.\<close>

definition inside :: "string \<Rightarrow> string \<Rightarrow> bool" where
  "inside d p = (p = d \<or> take (length d + 1) p = d @ ''/'')"

text \<open>
  \<^verbatim>\<open>shutil.rmtree(d)\<close> on a directory this process has just created: it and all below
  it are removed.
\<close>

definition rmtree :: "string \<Rightarrow> world \<Rightarrow> world" where
  "rmtree d w = w\<lparr>nodes := (\<lambda>p. if inside d p then None else nodes w p)\<rparr>"

text \<open>\<^verbatim>\<open>os.unlink(p)\<close> of a file that is there.\<close>

definition unlink :: "string \<Rightarrow> world \<Rightarrow> world" where
  "unlink p w = w\<lparr>nodes := (nodes w)(p := None)\<rparr>"

text \<open>The tree at \<open>src\<close> taken to \<open>dst\<close>.\<close>

definition relocate :: "string \<Rightarrow> string \<Rightarrow> (string \<rightharpoonup> node) \<Rightarrow> (string \<rightharpoonup> node)" where
  "relocate src dst m =
     (\<lambda>q. if inside dst q then m (src @ drop (length dst) q)
          else if inside src q then None
          else m q)"

text \<open>
  \<^verbatim>\<open>os.rename(src, dst)\<close>. A regular file replaces a regular file at \<open>dst\<close>; it cannot
  take the place of a directory or a name with a trailing slash. The directory that
  holds \<open>dst\<close> must exist, and both paths must lie on one device.
\<close>

definition os_rename :: "string \<Rightarrow> string \<Rightarrow> world \<Rightarrow> unit result" where
  "os_rename src dst w =
     (case lookup w src of
        None \<Rightarrow> (Inl (FileNotFoundError src), w)
      | Some (File c) \<Rightarrow>
          if dst = [] \<or> \<not> parent_ok w dst then (Inl (FileNotFoundError dst), w)
          else if trailing dst then (Inl (NotADirectoryError dst), w)
          else if lookup w dst = Some Dir then (Inl (IsADirectoryError dst), w)
          else if cross_device w src dst then (Inl (OSError ''Invalid cross-device link''), w)
          else (Inr (), w\<lparr>nodes := ((nodes w)(src := None))(dst \<mapsto> File c)\<rparr>)
      | Some Dir \<Rightarrow>
          if dst = [] \<or> \<not> parent_ok w (key dst) then (Inl (FileNotFoundError dst), w)
          else if exists w dst then (Inl (FileExistsError dst), w)
          else if cross_device w src dst then (Inl (OSError ''Invalid cross-device link''), w)
          else (Inr (), w\<lparr>nodes := relocate (key src) (key dst) (nodes w)\<rparr>))"

text \<open>
  \<^verbatim>\<open>shutil.copy2(src, dst)\<close> of a regular file: the source is opened, then the
  destination is created or truncated and the bytes are written. A write that runs into
  the limit of the device fails and leaves the bytes written so far.
\<close>

definition copyfile :: "string \<Rightarrow> string \<Rightarrow> world \<Rightarrow> unit result" where
  "copyfile src dst w =
     (case lookup w src of
        None \<Rightarrow> (Inl (FileNotFoundError src), w)
      | Some Dir \<Rightarrow> (Inl (IsADirectoryError src), w)
      | Some (File c) \<Rightarrow>
          if src = dst then (Inl (ShutilError (src @ '' and '' @ dst @ '' are the same file'')), w)
          else if dst = [] \<or> \<not> parent_ok w dst then (Inl (FileNotFoundError dst), w)
          else if trailing dst \<or> lookup w dst = Some Dir then (Inl (IsADirectoryError dst), w)
          else
            (case quota w dst of
               None \<Rightarrow> (Inr (), put dst (File c) w)
             | Some k \<Rightarrow>
                 if k < length c
                 then (Inl (OSError ''No space left on device''), put dst (File (take k c)) w)
                 else (Inr (), put dst (File c) w)))"

text \<open>\<^verbatim>\<open>shutil.copytree(src, dst)\<close>: the new directory is made, then filled.\<close>

definition copytree :: "string \<Rightarrow> string \<Rightarrow> world \<Rightarrow> unit result" where
  "copytree src dst w =
     (case makedirs dst w of
        (Inl e, w1) \<Rightarrow> (Inl e, w1)
      | (Inr u, w1) \<Rightarrow>
          (Inr (),
           w1\<lparr>nodes :=
             (\<lambda>q. if inside (key dst) q \<and> q \<noteq> key dst
                  then nodes w1 (key src @ drop (length (key dst)) q)
                  else nodes w1 q)\<rparr>))"

text \<open>
  \<^verbatim>\<open>shutil.move(src, dst)\<close>. When \<open>dst\<close> is a directory the source goes into it under
  its own name, unless that name is taken there. The move is a rename; when the rename
  fails with an \<^verbatim>\<open>OSError\<close> (and every error of \<^verbatim>\<open>os.rename\<close> is one), a regular file is
  copied to the destination and then removed, and a directory is copied as a tree and
  then removed. The staging file of \<^verbatim>\<open>cached_download\<close> is a regular file or missing.
\<close>

definition move :: "string \<Rightarrow> string \<Rightarrow> world \<Rightarrow> unit result" where
  "move src dst w =
     (if lookup w dst = Some Dir \<and> key src = key dst then (Inr (), w)
      else if lookup w dst = Some Dir
              \<and> exists w (join dst (basename (key src)))
      then (Inl (ShutilError
              (''Destination path '' @ join dst (basename (key src)) @ '' already exists'')), w)
      else
        (let real_dst = (if lookup w dst = Some Dir then join dst (basename (key src))
                         else dst)
         in case os_rename src real_dst w of
              (Inr u, w1) \<Rightarrow> (Inr (), w1)
            | (Inl e, w1) \<Rightarrow>
                if lookup w1 src = Some Dir then
                  (if inside (key src) (key dst)
                   then (Inl (ShutilError ''Cannot move a directory into itself''), w1)
                   else
                     (case copytree src real_dst w1 of
                        (Inl e2, w2) \<Rightarrow> (Inl e2, w2)
                      | (Inr u, w2) \<Rightarrow> (Inr (), rmtree (key src) w2)))
                else
                  (case copyfile src real_dst w1 of
                     (Inl e2, w2) \<Rightarrow> (Inl e2, w2)
                   | (Inr u, w2) \<Rightarrow> (Inr (), unlink src w2))))"

text \<open>
  \<^verbatim>\<open>with filelock.FileLock(lock_path)\<close> in a single process: taking the lock opens the
  lock file, creating or truncating it, which fails when the path is a directory or its
  directory is missing; the lock is released after the body and the lock file stays.
  Taking the lock is traced.
\<close>

definition acquire_lock :: "string \<Rightarrow> world \<Rightarrow> unit result" where
  "acquire_lock lock_path w =
     (let w1 = emit (Locked lock_path) w
      in if lock_path = [] \<or> \<not> parent_ok w1 lock_path
         then (Inl (FileNotFoundError lock_path), w1)
         else if trailing lock_path \<or> lookup w1 lock_path = Some Dir
         then (Inl (IsADirectoryError lock_path), w1)
         else (Inr (), put lock_path (File []) w1))"

subsection \<open>The environment of the module\<close>

text \<open>
  What the module takes from outside: the home directory (\<^verbatim>\<open>osp.expanduser("~")\<close>), the
  digest object of \<^verbatim>\<open>hashlib.md5()\<close>, the names \<^verbatim>\<open>tempfile\<close> proposes, and the download
  transport.
\<close>

datatype outcome = Raised exn "string option" | Returned "string option"

record 'h env =
  home :: string
  h_init :: 'h
  h_update :: "'h \<Rightarrow> string \<Rightarrow> 'h"
  h_hexdigest :: "'h \<Rightarrow> string"
  candidates :: "string list"
  transport :: "string option \<Rightarrow> string \<Rightarrow> bool \<Rightarrow> outcome"

text \<open>
  Modelled from the spec: \<^verbatim>\<open>download\<close> of \<^verbatim>\<open>gdown/download.py\<close>, the transport
  collaborator, is given only by its contract: it fetches the source into the destination
  file it is handed and fails with an error of its own on a network failure. The outcome
  says whether it raised and what it left at the destination file (\<open>None\<close>: the file was
  not created); nothing else in the filesystem is touched. Each invocation is traced.
\<close>

definition download :: "'h env \<Rightarrow> string option \<Rightarrow> string \<Rightarrow> bool \<Rightarrow> world \<Rightarrow> unit result" where
  "download env url dest quiet w =
     (let w1 = emit (Download url dest quiet) w;
          leave = (\<lambda>c. case c of None \<Rightarrow> w1 | Some bytes \<Rightarrow> put dest (File bytes) w1)
      in case transport env url dest quiet of
           Raised e c \<Rightarrow> (Inl e, leave c)
         | Returned c \<Rightarrow> (Inr (), leave c))"

text \<open>\<^verbatim>\<open>cache_root = osp.join(osp.expanduser("~"), ".cache/gdown")\<close>\<close>

definition cache_root :: "'h env \<Rightarrow> string" where
  "cache_root env = join (home env) ''.cache/gdown''"

text \<open>The module body: create the cache root if it is missing, ignoring any \<^verbatim>\<open>OSError\<close>.\<close>

definition module_init :: "'h env \<Rightarrow> world \<Rightarrow> unit result" where
  "module_init env w =
     (if \<not> exists w (cache_root env) then
        (case makedirs (cache_root env) w of
           (Inl e, w1) \<Rightarrow> if is_OSError e then (Inr (), w1) else (Inl e, w1)
         | (Inr u, w1) \<Rightarrow> (Inr (), w1))
      else (Inr (), w))"

subsection \<open>\<^verbatim>\<open>md5sum\<close>\<close>

text \<open>
  \<^verbatim>\<open>iter(lambda: f.read(blocksize), b"")\<close>: the blocks read until a read returns nothing.
  A read of size 0 returns nothing at once; a negative size reads the rest of the file.
\<close>

function read_blocks :: "int \<Rightarrow> string \<Rightarrow> string list" where
  "read_blocks n c =
     (if c = [] \<or> n = 0 then []
      else if n < 0 then [c]
      else take (nat n) c # read_blocks n (drop (nat n) c))"
  by pat_completeness auto
termination
  by (relation "measure (\<lambda>(n, c). length c)") auto

declare read_blocks.simps [simp del]

text \<open>The digest of a file's bytes, fed to the digest object block by block.\<close>

definition hexdigest_of :: "'h env \<Rightarrow> int \<Rightarrow> string \<Rightarrow> string" where
  "hexdigest_of env blocksize c =
     h_hexdigest env (foldl (h_update env) (h_init env) (read_blocks blocksize c))"

definition md5sum :: "'h env \<Rightarrow> string \<Rightarrow> int option \<Rightarrow> world \<Rightarrow> string result" where
  "md5sum env filename blocksize w =
     (let blocksize = (case blocksize of None \<Rightarrow> 65536 | Some b \<Rightarrow> b);
          w1 = emit (Opened filename) w
      in case lookup w1 filename of
           None \<Rightarrow> (Inl (FileNotFoundError filename), w1)
         | Some Dir \<Rightarrow> (Inl (IsADirectoryError filename), w1)
         | Some (File c) \<Rightarrow> (Inr (hexdigest_of env blocksize c), w1))"

subsection \<open>\<^verbatim>\<open>assert_md5sum\<close>\<close>

text \<open>The argument \<^verbatim>\<open>md5\<close> is a string or \<^verbatim>\<open>None\<close>; \<^verbatim>\<open>f"{md5}"\<close> prints it.\<close>

definition fmt :: "string option \<Rightarrow> string" where
  "fmt md5 = (case md5 of None \<Rightarrow> ''None'' | Some m \<Rightarrow> m)"

definition mismatch_msg :: "string \<Rightarrow> string \<Rightarrow> string" where
  "mismatch_msg md5_actual md5 =
     ''MD5 doesn't match:'' @ [CHR 0x0A] @ ''actual: '' @ md5_actual @ [CHR 0x0A]
       @ ''expected: '' @ md5"

text \<open>The parameter \<^verbatim>\<open>blocksize\<close> is accepted and not passed on to \<^verbatim>\<open>md5sum\<close>.\<close>

definition assert_md5sum ::
  "'h env \<Rightarrow> string \<Rightarrow> string option \<Rightarrow> bool \<Rightarrow> int option \<Rightarrow> world \<Rightarrow> bool result" where
  "assert_md5sum env filename md5 quiet blocksize w =
     (if \<not> (case md5 of None \<Rightarrow> False | Some m \<Rightarrow> length m = 32)
      then (Inl (ValueError (''MD5 must be 32 chars: '' @ fmt md5)), w)
      else
        (case md5sum env filename None (say quiet (''Computing MD5: '' @ filename) w) of
           (Inl e, w1) \<Rightarrow> (Inl e, w1)
         | (Inr md5_actual, w1) \<Rightarrow>
             if Some md5_actual = md5
             then (Inr True, say quiet (''MD5 matches: '' @ filename) w1)
             else (Inl (AssertionError (mismatch_msg md5_actual (fmt md5))), w1)))"

subsection \<open>\<^verbatim>\<open>cached_download\<close>\<close>

text \<open>\<^verbatim>\<open>s.replace(old, new)\<close> for a one-character \<^verbatim>\<open>old\<close>.\<close>

definition replace :: "char \<Rightarrow> string \<Rightarrow> string \<Rightarrow> string" where
  "replace old new s = concat (map (\<lambda>c. if c = old then new else [c]) s)"

text \<open>The chain of four replacements applied to the URL (lines 78 to 81).\<close>

definition cache_name :: "string \<Rightarrow> string" where
  "cache_name url =
     replace (CHR ''?'') ''-QUESTION-''
       (replace (CHR ''='') ''-EQUAL-''
         (replace (CHR '':'') ''-COLON-''
           (replace (CHR ''/'') ''-SLASH-'' url)))"

text \<open>
  Lines 76 to 83: the destination is the path given, else the name derived from the URL
  under the cache root. With neither, \<^verbatim>\<open>url.replace\<close> fails on \<^verbatim>\<open>None\<close>.
\<close>

definition resolve_path :: "'h env \<Rightarrow> string option \<Rightarrow> string option \<Rightarrow> exn + string" where
  "resolve_path env url path =
     (case path of
        Some p \<Rightarrow> Inr p
      | None \<Rightarrow>
          (case url of
             None \<Rightarrow>
               Inl (AttributeError
                 ([CHR 0x27] @ ''NoneType'' @ [CHR 0x27] @ '' object has no attribute ''
                    @ [CHR 0x27] @ ''replace'' @ [CHR 0x27]))
           | Some u \<Rightarrow> Inr (join (cache_root env) (cache_name u))))"

text \<open>\<^verbatim>\<open>if md5\<close>: \<^verbatim>\<open>None\<close> and the empty string are false.\<close>

definition truthy :: "string option \<Rightarrow> bool" where
  "truthy md5 = (case md5 of None \<Rightarrow> False | Some m \<Rightarrow> m \<noteq> [])"

text \<open>
  Lines 86 to 97, the existence check. \<open>Inr (Some path)\<close>: the function returns the
  path here; \<open>Inr None\<close>: control goes on to the download.
\<close>

definition check_existence ::
  "'h env \<Rightarrow> string \<Rightarrow> string option \<Rightarrow> bool \<Rightarrow> world \<Rightarrow> string option result" where
  "check_existence env path md5 quiet w =
     (if exists w path then
        (if \<not> truthy md5 then (Inr (Some path), say quiet (''File exists: '' @ path) w)
         else
           (case assert_md5sum env path md5 quiet None w of
              (Inr ok, w1) \<Rightarrow> (Inr (Some path), w1)
            | (Inl e, w1) \<Rightarrow>
                if is_AssertionError e then (Inr None, emit (Stderr (exn_str e)) w1)
                else (Inl e, w1)))
      else (Inr None, w))"

text \<open>Lines 107 to 116, the body of the \<^verbatim>\<open>try\<close>.\<close>

definition transfer ::
  "'h env \<Rightarrow> string option \<Rightarrow> string \<Rightarrow> bool \<Rightarrow> string \<Rightarrow> string \<Rightarrow> world \<Rightarrow> unit result" where
  "transfer env url path quiet lock_path temp_root w =
     (let temp_path = join temp_root ''dl'';
          msg = (if path \<noteq> [] then ''Cached Downloading: '' @ path
                 else ''Cached Downloading...'');
          w1 = (if \<not> quiet then emit (Stderr msg) w else w)
      in case download env url temp_path quiet w1 of
           (Inl e, w2) \<Rightarrow> (Inl e, w2)
         | (Inr u, w2) \<Rightarrow>
             (case acquire_lock lock_path w2 of
                (Inl e, w3) \<Rightarrow> (Inl e, w3)
              | (Inr u2, w3) \<Rightarrow> move temp_path path w3))"

text \<open>
  Lines 105 to 119: the staging directory, the \<^verbatim>\<open>try\<close> and its handler
  \<^verbatim>\<open>except Exception: shutil.rmtree(temp_root); raise\<close>.
\<close>

definition stage ::
  "'h env \<Rightarrow> string option \<Rightarrow> string \<Rightarrow> bool \<Rightarrow> string \<Rightarrow> world \<Rightarrow> unit result" where
  "stage env url path quiet lock_path w =
     (case mkdtemp (candidates env) (cache_root env) w of
        (Inl e, w1) \<Rightarrow> (Inl e, w1)
      | (Inr temp_root, w1) \<Rightarrow>
          (case transfer env url path quiet lock_path temp_root w1 of
             (Inl e, w2) \<Rightarrow>
               if is_Exception e then (Inl e, rmtree temp_root w2) else (Inl e, w2)
           | (Inr u, w2) \<Rightarrow> (Inr (), w2)))"

text \<open>
  Lines 100 to 119: the lock path, the parent directory of the destination (any
  \<^verbatim>\<open>OSError\<close> of \<^verbatim>\<open>os.makedirs\<close> is passed over), then the staged transfer.
\<close>

definition stage_and_transfer ::
  "'h env \<Rightarrow> string option \<Rightarrow> string \<Rightarrow> bool \<Rightarrow> world \<Rightarrow> unit result" where
  "stage_and_transfer env url path quiet w =
     (let lock_path = join (cache_root env) ''_dl_lock''
      in case makedirs (dirname path) w of
           (Inl e, w1) \<Rightarrow>
             if is_OSError e then stage env url path quiet lock_path w1 else (Inl e, w1)
         | (Inr u, w1) \<Rightarrow> stage env url path quiet lock_path w1)"

text \<open>Lines 121 to 128: the verification after the move, the postprocess hook, the return.\<close>

definition finish ::
  "'h env \<Rightarrow> string \<Rightarrow> string option \<Rightarrow> bool \<Rightarrow> (string \<Rightarrow> world \<Rightarrow> unit result) option
     \<Rightarrow> world \<Rightarrow> string result" where
  "finish env path md5 quiet postprocess w =
     (case (if truthy md5 then assert_md5sum env path md5 quiet None w else (Inr True, w)) of
        (Inl e, w1) \<Rightarrow> (Inl e, w1)
      | (Inr ok, w1) \<Rightarrow>
          (case postprocess of
             None \<Rightarrow> (Inr path, w1)
           | Some f \<Rightarrow>
               (case f path (emit (Postprocess path) w1) of
                  (Inl e, w2) \<Rightarrow> (Inl e, w2)
                | (Inr u, w2) \<Rightarrow> (Inr path, w2))))"

definition cached_download ::
  "'h env \<Rightarrow> string option \<Rightarrow> string option \<Rightarrow> string option \<Rightarrow> bool
     \<Rightarrow> (string \<Rightarrow> world \<Rightarrow> unit result) option \<Rightarrow> world \<Rightarrow> string result" where
  "cached_download env url path md5 quiet postprocess w =
     (case resolve_path env url path of
        Inl e \<Rightarrow> (Inl e, w)
      | Inr p \<Rightarrow>
          (case check_existence env p md5 quiet w of
             (Inl e, w1) \<Rightarrow> (Inl e, w1)
           | (Inr (Some r), w1) \<Rightarrow> (Inr r, w1)
           | (Inr None, w1) \<Rightarrow>
               (case stage_and_transfer env url p quiet w1 of
                  (Inl e, w2) \<Rightarrow> (Inl e, w2)
                | (Inr u, w2) \<Rightarrow> finish env p md5 quiet postprocess w2)))"

subsection \<open>A small concrete environment\<close>

text \<open>
  An instance to run the definitions on: the digest object collects the bytes and prints
  the first 32 of them, padded with zeros (any function of the bytes would do); the
  transport delivers five bytes; the cache root exists.
\<close>

definition demo_env :: "string env" where
  "demo_env =
     \<lparr> home = ''/home/user'',
       h_init = [],
       h_update = (\<lambda>h block. h @ block),
       h_hexdigest = (\<lambda>h. take 32 (h @ replicate 32 (CHR ''0''))),
       candidates = [''tmpa1'', ''tmpb2''],
       transport = (\<lambda>url dest quiet. Returned (Some ''hello'')) \<rparr>"

definition demo_nodes :: "string \<rightharpoonup> node" where
  "demo_nodes =
     [''/home'' \<mapsto> Dir,
      ''/home/user'' \<mapsto> Dir,
      ''/home/user/.cache'' \<mapsto> Dir,
      ''/home/user/.cache/gdown'' \<mapsto> Dir,
      ''/home/user/.cache/gdown/stale'' \<mapsto> File ''old'']"

definition demo_world :: world where
  "demo_world =
     \<lparr> nodes = demo_nodes,
       trace = [],
       cross_device = (\<lambda>src dst. False),
       quota = (\<lambda>p. None) \<rparr>"

text \<open>
  The same world with the cache on one device and everything else on another, which has
  room for two more bytes.
\<close>

definition split_world :: world where
  "split_world =
     demo_world\<lparr>cross_device := (\<lambda>src dst. True), quota := (\<lambda>p. Some 2)\<rparr>"

text \<open>The same environment with a transport that fails after writing three bytes.\<close>

definition failing_env :: "string env" where
  "failing_env =
     demo_env\<lparr>transport :=
       (\<lambda>url dest quiet. Raised (TransportError ''connection reset'') (Some ''hel''))\<rparr>"


text \<open>The same environment with a transport that returns without writing a file.\<close>

definition silent_env :: "string env" where
  "silent_env = demo_env\<lparr>transport := (\<lambda>url dest quiet. Returned None)\<rparr>"

section \<open>Properties\<close>

subsection \<open>Path functions and the derived name\<close>

lemma set_replace: "set (replace old new s) \<subseteq> (set s - {old}) \<union> set new"
  by (induction s) (auto simp: replace_def)

lemma cache_name_reserved_free:
  "CHR ''/'' \<notin> set (cache_name url)" "CHR '':'' \<notin> set (cache_name url)"
  "CHR ''='' \<notin> set (cache_name url)" "CHR ''?'' \<notin> set (cache_name url)"
proof -
  let ?a = "replace (CHR ''/'') ''-SLASH-'' url"
  let ?b = "replace (CHR '':'') ''-COLON-'' ?a"
  let ?c = "replace (CHR ''='') ''-EQUAL-'' ?b"
  have a: "set ?a \<subseteq> (set url - {CHR ''/''}) \<union> set ''-SLASH-''" by (rule set_replace)
  have b: "set ?b \<subseteq> (set ?a - {CHR '':''}) \<union> set ''-COLON-''" by (rule set_replace)
  have c: "set ?c \<subseteq> (set ?b - {CHR ''=''}) \<union> set ''-EQUAL-''" by (rule set_replace)
  have d: "set (cache_name url) \<subseteq> (set ?c - {CHR ''?''}) \<union> set ''-QUESTION-''"
    unfolding cache_name_def by (rule set_replace)
  show "CHR ''/'' \<notin> set (cache_name url)" using a b c d by auto
  show "CHR '':'' \<notin> set (cache_name url)" using b c d by auto
  show "CHR ''='' \<notin> set (cache_name url)" using c d by auto
  show "CHR ''?'' \<notin> set (cache_name url)" using d by auto
qed

lemma cache_root_has_slash: "CHR ''/'' \<in> set (cache_root env)"
  by (simp add: cache_root_def join_def)

lemma join_has_slash: "CHR ''/'' \<in> set a \<Longrightarrow> CHR ''/'' \<in> set (join a b)"
  by (cases b) (auto simp: join_def)

lemma takeWhile_neq_append:
  "c \<notin> set xs \<Longrightarrow> takeWhile (\<lambda>x. x \<noteq> c) (xs @ ys) = xs @ takeWhile (\<lambda>x. x \<noteq> c) ys"
  by (induction xs) auto

lemma takeWhile_neq_all: "c \<notin> set xs \<Longrightarrow> takeWhile (\<lambda>x. x \<noteq> c) xs = xs"
  by (induction xs) auto

lemma basename_plain: "CHR ''/'' \<notin> set b \<Longrightarrow> basename b = b"
  by (simp add: basename_def takeWhile_neq_all)

lemma basename_after_slash: "CHR ''/'' \<notin> set b \<Longrightarrow> basename (a @ ''/'' @ b) = b"
  using takeWhile_neq_append [of "CHR ''/''" "rev b" "CHR ''/'' # rev a"]
  by (simp add: basename_def)

lemma basename_no_slash: 
  assumes nb: "CHR ''/'' \<notin> set b"
  shows "basename (join a b) = b"
proof -
  have hd: "\<not> (b \<noteq> [] \<and> hd b = CHR ''/'')" using nb by (cases b) auto
  show ?thesis
  proof (cases "a = []")
    case True
    then have "join a b = b" using hd by (simp add: join_def)
    then show ?thesis using nb by (simp add: basename_plain)
  next
    case False
    show ?thesis
    proof (cases "last a = CHR ''/''")
      case True
      then have "a = butlast a @ ''/''" using False by (metis append_butlast_last_id)
      then have "join a b = butlast a @ ''/'' @ b" using hd True
        by (metis append.assoc join_def)
      then show ?thesis using nb basename_after_slash by metis
    next
      case l: False
      then have "join a b = a @ ''/'' @ b" using hd False by (simp add: join_def)
      then show ?thesis using nb basename_after_slash by metis
    qed
  qed
qed

subsection \<open>The derived cache path\<close>

lemma resolve_path_url:
  "resolve_path env (Some url) None = Inr (join (cache_root env) (cache_name url))"
  by (simp add: resolve_path_def)

lemma cache_name_scenario:
  "cache_name ''https://host/uc?id=ABC123&export=download'' =
     ''https-COLON--SLASH--SLASH-host-SLASH-uc-QUESTION-id-EQUAL-ABC123&export-EQUAL-download''"
  by (simp add: cache_name_def replace_def)

text \<open>
  Claim C5, as stated: for the URL \<^verbatim>\<open>https://host/uc?id=ABC123&export=download\<close> the
  basename of the derived path is
  \<^verbatim>\<open>https-COLON---SLASH---SLASH-host-SLASH-uc-QUESTION-id-EQUAL-ABC123-EQUAL-export-EQUAL-download\<close>.
  It is not: the two slashes after the colon give \<^verbatim>\<open>-COLON--SLASH--SLASH-\<close>, with two
  hyphens where the tokens meet, and the ampersand is not a reserved character and stays.
\<close>

theorem scenario_basename_counterexample:
  "resolve_path demo_env (Some ''https://host/uc?id=ABC123&export=download'') None =
     Inr ''/home/user/.cache/gdown/https-COLON--SLASH--SLASH-host-SLASH-uc-QUESTION-id-EQUAL-ABC123&export-EQUAL-download''
   \<and> basename ''/home/user/.cache/gdown/https-COLON--SLASH--SLASH-host-SLASH-uc-QUESTION-id-EQUAL-ABC123&export-EQUAL-download''
     \<noteq> ''https-COLON---SLASH---SLASH-host-SLASH-uc-QUESTION-id-EQUAL-ABC123-EQUAL-export-EQUAL-download''"
  by (simp add: resolve_path_def cache_name_scenario cache_root_def join_def demo_env_def
      basename_def)

text \<open>
  Claim C5, amended: for that URL and no explicit destination, the derived path is the
  cache root joined with
  \<^verbatim>\<open>https-COLON--SLASH--SLASH-host-SLASH-uc-QUESTION-id-EQUAL-ABC123&export-EQUAL-download\<close>,
  which is its basename; the name is the result of replacing \<^verbatim>\<open>/\<close>, then \<^verbatim>\<open>:\<close>, then
  \<^verbatim>\<open>=\<close>, then \<^verbatim>\<open>?\<close>.
\<close>

theorem scenario_basename:
  "resolve_path env (Some ''https://host/uc?id=ABC123&export=download'') None =
     Inr (join (cache_root env)
       ''https-COLON--SLASH--SLASH-host-SLASH-uc-QUESTION-id-EQUAL-ABC123&export-EQUAL-download'')
   \<and> basename (join (cache_root env)
       ''https-COLON--SLASH--SLASH-host-SLASH-uc-QUESTION-id-EQUAL-ABC123&export-EQUAL-download'')
     = ''https-COLON--SLASH--SLASH-host-SLASH-uc-QUESTION-id-EQUAL-ABC123&export-EQUAL-download''
   \<and> ''https-COLON--SLASH--SLASH-host-SLASH-uc-QUESTION-id-EQUAL-ABC123&export-EQUAL-download''
     = replace (CHR ''?'') ''-QUESTION-''
         (replace (CHR ''='') ''-EQUAL-''
           (replace (CHR '':'') ''-COLON-''
             (replace (CHR ''/'') ''-SLASH-'' ''https://host/uc?id=ABC123&export=download'')))"
proof -
  let ?n = "cache_name ''https://host/uc?id=ABC123&export=download''"
  have "resolve_path env (Some ''https://host/uc?id=ABC123&export=download'') None
          = Inr (join (cache_root env) ?n)"
    by (rule resolve_path_url)
  moreover have "basename (join (cache_root env) ?n) = ?n"
    by (rule basename_no_slash) (rule cache_name_reserved_free)
  moreover have "?n = replace (CHR ''?'') ''-QUESTION-''
         (replace (CHR ''='') ''-EQUAL-''
           (replace (CHR '':'') ''-COLON-''
             (replace (CHR ''/'') ''-SLASH-'' ''https://host/uc?id=ABC123&export=download'')))"
    unfolding cache_name_def ..
  ultimately show ?thesis by (simp only: cache_name_scenario)
qed

text \<open>
  Claim C8, as stated: the derived path contains none of the characters \<^verbatim>\<open>/ : = ?\<close>.
  The path is the derived name joined under the cache root, and the cache root,
  \<^verbatim>\<open>~/.cache/gdown\<close>, has slashes of its own.
\<close>

theorem derived_path_reserved_counterexample:
  "resolve_path demo_env (Some ''a'') None = Inr ''/home/user/.cache/gdown/a''
   \<and> CHR ''/'' \<in> set ''/home/user/.cache/gdown/a''"
  by (simp add: resolve_path_def cache_name_def replace_def cache_root_def join_def
      demo_env_def)

text \<open>
  Claim C8, amended: the derivation is a function of the URL (and of the cache root), so
  two calls give the same path, and the derived name, the basename of that path below the
  cache root, contains none of the characters \<^verbatim>\<open>/ : = ?\<close>.
\<close>

theorem derived_name_reserved_free:
  "resolve_path env (Some url) None = Inr (join (cache_root env) (cache_name url))
   \<and> basename (join (cache_root env) (cache_name url)) = cache_name url
   \<and> CHR ''/'' \<notin> set (cache_name url) \<and> CHR '':'' \<notin> set (cache_name url)
   \<and> CHR ''='' \<notin> set (cache_name url) \<and> CHR ''?'' \<notin> set (cache_name url)"
  using resolve_path_url [of env url] cache_name_reserved_free [of url]
    basename_no_slash [of "cache_name url" "cache_root env"]
  by simp

subsection \<open>Looking paths up\<close>

lemma not_root_last:
  assumes "p \<noteq> []" and "last p \<noteq> CHR ''/''"
  shows "\<not> is_root p"
proof
  assume "is_root p"
  then have "\<forall>c \<in> set p. c = CHR ''/''" by (simp add: is_root_def list_all_iff)
  moreover have "last p \<in> set p" using assms(1) by (rule last_in_set)
  ultimately show False using assms(2) by blast
qed

lemma not_trailing_last: "last p \<noteq> CHR ''/'' \<Longrightarrow> \<not> trailing p"
  unfolding trailing_def by blast

lemma lookup_plain:
  assumes "p \<noteq> []" and "last p \<noteq> CHR ''/''"
  shows "lookup w p = nodes w p"
proof -
  have "\<not> is_root p" using assms by (rule not_root_last)
  moreover have "\<not> trailing p" using assms(2) by (rule not_trailing_last)
  ultimately show ?thesis using assms(1) unfolding lookup_def by presburger
qed

lemma lookup_cong: "nodes w1 = nodes w \<Longrightarrow> lookup w1 p = lookup w p"
  unfolding lookup_def by presburger

lemma exists_cong: "nodes w1 = nodes w \<Longrightarrow> exists w1 p = exists w p"
  unfolding exists_def using lookup_cong [of w1 w p] by presburger


lemma lookup_root: "is_root p \<Longrightarrow> lookup w p = Some Dir"
  by (auto simp: lookup_def is_root_def)

lemma trailing_no_file: "trailing p \<Longrightarrow> lookup w p \<noteq> Some (File c)"
  by (auto simp: lookup_def split: option.splits node.splits)

lemma lookup_say [simp]: "lookup (say quiet msg w) p = lookup w p"
  by (simp add: say_def lookup_def emit_def)

lemma lookup_emit [simp]: "lookup (emit ev w) p = lookup w p"
  by (simp add: lookup_def emit_def)

subsection \<open>The demo environment, evaluated\<close>

lemma concat_read_blocks: "n \<noteq> 0 \<Longrightarrow> concat (read_blocks n c) = c"
proof (induction n c rule: read_blocks.induct)
  case (1 n c)
  then show ?case by (subst read_blocks.simps) auto
qed

lemma foldl_append_concat: "foldl (\<lambda>h block. h @ block) acc bs = acc @ concat bs"
  by (induction bs arbitrary: acc) auto

lemma demo_hexdigest:
  "hexdigest_of demo_env 65536 c = take 32 (c @ replicate 32 (CHR ''0''))"
  by (simp add: hexdigest_of_def demo_env_def foldl_append_concat concat_read_blocks)

lemma demo_lookup_stale:
  "lookup demo_world ''/home/user/.cache/gdown/stale'' = Some (File ''old'')"
  by (simp add: lookup_plain demo_world_def demo_nodes_def)

subsection \<open>\<^verbatim>\<open>assert_md5sum\<close>\<close>

lemma md5sum_file:
  "lookup w filename = Some (File c) \<Longrightarrow>
   md5sum env filename None w = (Inr (hexdigest_of env 65536 c), emit (Opened filename) w)"
  by (simp add: md5sum_def Let_def)

lemma assert_md5sum_invalid:
  "\<not> (\<exists>m. md5 = Some m \<and> length m = 32) \<Longrightarrow>
   assert_md5sum env filename md5 quiet blocksize w =
     (Inl (ValueError (''MD5 must be 32 chars: '' @ fmt md5)), w)"
  by (cases md5) (auto simp: assert_md5sum_def)

lemma assert_md5sum_file:
  assumes "length m = 32" and "lookup w filename = Some (File c)"
  shows "assert_md5sum env filename (Some m) quiet blocksize w =
     (if hexdigest_of env 65536 c = m
      then (Inr True,
            say quiet (''MD5 matches: '' @ filename)
              (emit (Opened filename) (say quiet (''Computing MD5: '' @ filename) w)))
      else (Inl (AssertionError (mismatch_msg (hexdigest_of env 65536 c) m)),
            emit (Opened filename) (say quiet (''Computing MD5: '' @ filename) w)))"
proof -
  have "md5sum env filename None (say quiet (''Computing MD5: '' @ filename) w) =
      (Inr (hexdigest_of env 65536 c),
       emit (Opened filename) (say quiet (''Computing MD5: '' @ filename) w))"
    by (rule md5sum_file) (simp add: assms)
  then show ?thesis using assms(1) by (simp add: assert_md5sum_def fmt_def)
qed

text \<open>
  Claim C6: \<^verbatim>\<open>assert_md5sum\<close> raises \<^verbatim>\<open>ValueError\<close> at once, the world untouched (no
  file opened, nothing printed), whenever the expected digest is not a string of 32
  characters. Given 32 characters and a readable file, it returns \<^verbatim>\<open>True\<close> exactly when
  the digest computed from the file equals the expected one as a string, and otherwise
  raises \<^verbatim>\<open>AssertionError\<close> with a message that carries the actual and the expected
  digest.
\<close>

theorem assert_md5sum_contract:
  "(\<not> (\<exists>m. md5 = Some m \<and> length m = 32) \<longrightarrow>
      assert_md5sum env filename md5 quiet blocksize w =
        (Inl (ValueError (''MD5 must be 32 chars: '' @ fmt md5)), w))
   \<and> (\<forall>m c. md5 = Some m \<and> length m = 32 \<and> lookup w filename = Some (File c) \<longrightarrow>
        (fst (assert_md5sum env filename md5 quiet blocksize w) = Inr True
           \<longleftrightarrow> hexdigest_of env 65536 c = m)
        \<and> (hexdigest_of env 65536 c \<noteq> m \<longrightarrow>
             fst (assert_md5sum env filename md5 quiet blocksize w) =
               Inl (AssertionError
                 (''MD5 doesn't match:'' @ [CHR 0x0A] @ ''actual: '' @ hexdigest_of env 65536 c
                    @ [CHR 0x0A] @ ''expected: '' @ m))))"
proof (intro conjI impI allI)
  assume "\<not> (\<exists>m. md5 = Some m \<and> length m = 32)"
  then show "assert_md5sum env filename md5 quiet blocksize w =
        (Inl (ValueError (''MD5 must be 32 chars: '' @ fmt md5)), w)"
    by (rule assert_md5sum_invalid)
next
  fix m c
  assume h: "md5 = Some m \<and> length m = 32 \<and> lookup w filename = Some (File c)"
  then show "(fst (assert_md5sum env filename md5 quiet blocksize w) = Inr True)
      = (hexdigest_of env 65536 c = m)"
    by (simp add: assert_md5sum_file)
next
  fix m c
  assume h: "md5 = Some m \<and> length m = 32 \<and> lookup w filename = Some (File c)"
    and ne: "hexdigest_of env 65536 c \<noteq> m"
  then show "fst (assert_md5sum env filename md5 quiet blocksize w) =
               Inl (AssertionError
                 (''MD5 doesn't match:'' @ [CHR 0x0A] @ ''actual: '' @ hexdigest_of env 65536 c
                    @ [CHR 0x0A] @ ''expected: '' @ m))"
    by (simp add: assert_md5sum_file mismatch_msg_def)
qed

theorem assert_md5sum_contract_witness:
  "assert_md5sum demo_env ''/home/user/.cache/gdown/stale'' (Some ''abc'') False None demo_world
     = (Inl (ValueError ''MD5 must be 32 chars: abc''), demo_world)
   \<and> fst (assert_md5sum demo_env ''/home/user/.cache/gdown/stale''
            (Some ''old00000000000000000000000000000'') False None demo_world) = Inr True
   \<and> fst (assert_md5sum demo_env ''/home/user/.cache/gdown/stale''
            (Some ''OLD00000000000000000000000000000'') False None demo_world)
       = Inl (AssertionError
           (''MD5 doesn't match:'' @ [CHR 0x0A] @ ''actual: old00000000000000000000000000000''
              @ [CHR 0x0A] @ ''expected: OLD00000000000000000000000000000''))"
  using
    assert_md5sum_contract [of "Some ''abc''" demo_env "''/home/user/.cache/gdown/stale''"
      False None demo_world]
    assert_md5sum_contract [of "Some ''old00000000000000000000000000000''" demo_env
      "''/home/user/.cache/gdown/stale''" False None demo_world]
    assert_md5sum_contract [of "Some ''OLD00000000000000000000000000000''" demo_env
      "''/home/user/.cache/gdown/stale''" False None demo_world]
  by (simp add: demo_hexdigest demo_lookup_stale fmt_def eval_nat_numeral)

subsection \<open>An empty checksum\<close>

text \<open>
  Claim C10: \<^verbatim>\<open>md5=""\<close> is treated exactly like \<^verbatim>\<open>md5=None\<close>. The whole call gives
  the same result and the same world; an existing destination is returned after the
  \<^verbatim>\<open>File exists\<close> line alone, with no file opened; and after a download the final phase
  goes to the postprocess hook with the world unchanged, so \<^verbatim>\<open>assert_md5sum\<close>, which
  would reject the empty string, is never applied to it.
\<close>

theorem empty_md5_like_absent:
  "cached_download env url path (Some []) quiet postprocess w =
     cached_download env url path None quiet postprocess w
   \<and> (exists w p \<longrightarrow>
        check_existence env p (Some []) quiet w =
          (Inr (Some p), say quiet (''File exists: '' @ p) w))
   \<and> finish env p (Some []) quiet None w = (Inr p, w)
   \<and> finish env p (Some []) quiet postprocess w = finish env p None quiet postprocess w"
proof -
  have c: "check_existence env q (Some []) quiet v = check_existence env q None quiet v"
    for q v by (simp add: check_existence_def truthy_def)
  have f: "finish env q (Some []) quiet postprocess v = finish env q None quiet postprocess v"
    for q v by (simp add: finish_def truthy_def)
  have "cached_download env url path (Some []) quiet postprocess w =
     cached_download env url path None quiet postprocess w"
    by (simp add: cached_download_def c f cong: sum.case_cong prod.case_cong option.case_cong)
  moreover have "exists w p \<longrightarrow>
        check_existence env p (Some []) quiet w =
          (Inr (Some p), say quiet (''File exists: '' @ p) w)"
    by (simp add: check_existence_def truthy_def)
  moreover have "finish env p (Some []) quiet None w = (Inr p, w)"
    by (simp add: finish_def truthy_def)
  ultimately show ?thesis using f by simp
qed

theorem empty_md5_like_absent_witness:
  "exists demo_world ''/home/user/.cache/gdown/stale''
   \<and> cached_download demo_env None (Some ''/home/user/.cache/gdown/stale'') (Some []) True None
        demo_world = (Inr ''/home/user/.cache/gdown/stale'', demo_world)"
  using empty_md5_like_absent [of demo_env None "Some ''/home/user/.cache/gdown/stale''" True
      None demo_world "''/home/user/.cache/gdown/stale''"]
  by (simp add: exists_def demo_lookup_stale cached_download_def resolve_path_def say_def)

subsection \<open>What the steps change\<close>

lemma nodes_emit [simp]: "nodes (emit ev w) = nodes w"
  by (simp add: emit_def)

lemma nodes_say [simp]: "nodes (say quiet msg w) = nodes w"
  by (simp add: say_def)

lemma trace_emit [simp]: "trace (emit ev w) = trace w @ [ev]"
  by (simp add: emit_def)

lemma downloads_say [simp]:
  "filter is_Download (trace (say quiet msg w)) = filter is_Download (trace w)"
  by (simp add: say_def)

lemma md5sum_world: "md5sum env f b w = (r, w1) \<Longrightarrow> w1 = emit (Opened f) w"
  by (auto simp: md5sum_def Let_def split: option.splits node.splits)

lemma assert_md5sum_nodes:
  "assert_md5sum env f md5 quiet b w = (r, w1) \<Longrightarrow> nodes w1 = nodes w"
  by (auto simp: assert_md5sum_def split: if_splits prod.splits sum.splits
      dest!: md5sum_world)

lemma assert_md5sum_downloads:
  "assert_md5sum env f md5 quiet b w = (r, w1) \<Longrightarrow>
   filter is_Download (trace w1) = filter is_Download (trace w)"
  by (auto simp: assert_md5sum_def split: if_splits prod.splits sum.splits
      dest!: md5sum_world)

lemma md5sum_ok:
  "md5sum env f None w = (Inr d, w1) \<Longrightarrow>
   \<exists>c. lookup w f = Some (File c) \<and> d = hexdigest_of env 65536 c"
  by (auto simp: md5sum_def Let_def split: option.splits node.splits)

lemma assert_md5sum_ok:
  assumes "assert_md5sum env f md5 quiet b w = (Inr x, w1)"
  shows "\<exists>m c. md5 = Some m \<and> length m = 32 \<and> lookup w f = Some (File c)
           \<and> hexdigest_of env 65536 c = m"
proof -
  from assms obtain m where m: "md5 = Some m" "length m = 32"
    by (cases md5) (auto simp: assert_md5sum_def split: if_splits)
  from assms m obtain d w0 where
    d: "md5sum env f None (say quiet (''Computing MD5: '' @ f) w) = (Inr d, w0)" and "d = m"
    by (auto simp: assert_md5sum_def split: prod.splits sum.splits if_splits)
  from md5sum_ok [OF d] \<open>d = m\<close> m show ?thesis by auto
qed

lemma check_existence_nodes:
  "check_existence env p md5 quiet w = (r, w1) \<Longrightarrow> nodes w1 = nodes w"
  by (auto simp: check_existence_def split: if_splits prod.splits sum.splits
      dest: assert_md5sum_nodes)

lemma check_existence_hit:
  assumes "exists w p"
    and "\<not> truthy md5 \<or> (\<exists>m c. md5 = Some m \<and> length m = 32 \<and> lookup w p = Some (File c)
           \<and> hexdigest_of env 65536 c = m)"
  shows "check_existence env p md5 quiet w =
     (Inr (Some p),
      if truthy md5
      then say quiet (''MD5 matches: '' @ p)
             (emit (Opened p) (say quiet (''Computing MD5: '' @ p) w))
      else say quiet (''File exists: '' @ p) w)"
proof (cases "truthy md5")
  case False
  then show ?thesis using assms(1) by (simp add: check_existence_def)
next
  case True
  with assms(2) obtain m c where m: "md5 = Some m" "length m = 32"
    "lookup w p = Some (File c)" "hexdigest_of env 65536 c = m" by auto
  then show ?thesis using True assms(1)
    by (simp add: check_existence_def assert_md5sum_file)
qed

subsection \<open>A cache hit\<close>

text \<open>
  Claim C1: when something exists at the destination (the path given, or the one derived
  from the URL) and either no checksum was supplied or the supplied checksum has 32
  characters and equals the digest computed from the file, \<^verbatim>\<open>cached_download\<close> returns
  that path at once: the filesystem is as before, and the trace gains only the
  informational lines and the opening of the file for the digest, and no invocation of
  the transport.
\<close>

theorem cache_hit_returns_without_download:
  assumes "resolve_path env url path = Inr p"
    and "exists w p"
    and "\<not> truthy md5 \<or> (\<exists>m c. md5 = Some m \<and> length m = 32 \<and> lookup w p = Some (File c)
           \<and> hexdigest_of env 65536 c = m)"
  shows "cached_download env url path md5 quiet postprocess w =
       (Inr p,
        if truthy md5
        then say quiet (''MD5 matches: '' @ p)
               (emit (Opened p) (say quiet (''Computing MD5: '' @ p) w))
        else say quiet (''File exists: '' @ p) w)
     \<and> nodes (snd (cached_download env url path md5 quiet postprocess w)) = nodes w
     \<and> filter is_Download (trace (snd (cached_download env url path md5 quiet postprocess w)))
         = filter is_Download (trace w)"
proof -
  have "cached_download env url path md5 quiet postprocess w =
       (Inr p,
        if truthy md5
        then say quiet (''MD5 matches: '' @ p)
               (emit (Opened p) (say quiet (''Computing MD5: '' @ p) w))
        else say quiet (''File exists: '' @ p) w)"
    using assms(1) check_existence_hit [OF assms(2,3)] by (simp add: cached_download_def)
  then show ?thesis by simp
qed

theorem cache_hit_returns_without_download_witness:
  "cached_download demo_env None (Some ''/home/user/.cache/gdown/stale'') None False None
       demo_world
     = (Inr ''/home/user/.cache/gdown/stale'',
        demo_world\<lparr>trace := [Stdout ''File exists: /home/user/.cache/gdown/stale'']\<rparr>)
   \<and> cached_download demo_env None (Some ''/home/user/.cache/gdown/stale'')
       (Some ''old00000000000000000000000000000'') True None demo_world
     = (Inr ''/home/user/.cache/gdown/stale'',
        demo_world\<lparr>trace := [Opened ''/home/user/.cache/gdown/stale'']\<rparr>)"
  using
    cache_hit_returns_without_download [of demo_env None
      "Some ''/home/user/.cache/gdown/stale''" "''/home/user/.cache/gdown/stale''" demo_world
      None False None]
    cache_hit_returns_without_download [of demo_env None
      "Some ''/home/user/.cache/gdown/stale''" "''/home/user/.cache/gdown/stale''" demo_world
      "Some ''old00000000000000000000000000000''" True None]
  by (simp add: resolve_path_def exists_def demo_lookup_stale truthy_def demo_hexdigest
      eval_nat_numeral say_def emit_def)
     (simp add: demo_world_def)

subsection \<open>Paths: parents and staging names\<close>

lemma dropWhile_hd_shorter: "xs \<noteq> [] \<Longrightarrow> P (hd xs) \<Longrightarrow> length (dropWhile P xs) < length xs"
  using length_dropWhile_le [of P "tl xs"] by (cases xs) auto

lemma dropWhile_same_length: "length (dropWhile P xs) = length xs \<Longrightarrow> dropWhile P xs = xs"
  using dropWhile_hd_shorter [of xs P] by (cases xs) auto

lemma dirname_length: "length (dirname p) \<le> length p"
proof -
  let ?h = "rev (dropWhile (\<lambda>c. c \<noteq> CHR ''/'') (rev p))"
  have h: "length ?h \<le> length p"
    using length_dropWhile_le [of "\<lambda>c. c \<noteq> CHR ''/''" "rev p"] by simp
  have "length (rev (dropWhile (\<lambda>c. c = CHR ''/'') (rev ?h))) \<le> length ?h"
    using length_dropWhile_le [of "\<lambda>c. c = CHR ''/''" "rev ?h"] by simp
  with h show ?thesis by (auto simp: dirname_def Let_def)
qed

lemma dirname_neq:
  assumes "p \<noteq> []" and "\<not> is_root p"
  shows "dirname p \<noteq> p"
proof
  assume eq: "dirname p = p"
  let ?d = "dropWhile (\<lambda>c. c \<noteq> CHR ''/'') (rev p)"
  let ?h = "rev ?d"
  have hl: "length ?h \<le> length p"
    using length_dropWhile_le [of "\<lambda>c. c \<noteq> CHR ''/''" "rev p"] by simp
  have sl: "length (rev (dropWhile (\<lambda>c. c = CHR ''/'') (rev ?h))) \<le> length ?h"
    using length_dropWhile_le [of "\<lambda>c. c = CHR ''/''" "rev ?h"] by simp
  have "length (dirname p) \<le> length ?h"
    using sl by (auto simp: dirname_def Let_def)
  with eq hl have "length ?d = length (rev p)" by simp
  then have d: "?d = rev p" by (rule dropWhile_same_length)
  then have hp: "?h = p" by simp
  from d assms(1) have slash: "hd (rev p) = CHR ''/''"
    using hd_dropWhile [of "\<lambda>c. c \<noteq> CHR ''/''" "rev p"] by simp
  from hp assms have "dirname p = rev (dropWhile (\<lambda>c. c = CHR ''/'') (rev p))"
    by (simp add: dirname_def Let_def)
  moreover have "length (dropWhile (\<lambda>c. c = CHR ''/'') (rev p)) < length (rev p)"
    using assms(1) slash by (intro dropWhile_hd_shorter) auto
  ultimately have "length (dirname p) < length p" by simp
  with eq show False by simp
qed

lemma ancestors_shorter: "a \<in> set (ancestors d) \<Longrightarrow> length a < length d"
  by (auto simp: ancestors_def)

lemma parent_not_self:
  assumes "\<not> is_root p"
  shows "p \<notin> set (ancestors (dirname p) @ [dirname p]) \<or> dirname p = []"
proof (cases "p = []")
  case True
  then show ?thesis by (simp add: dirname_def)
next
  case False
  have "p \<notin> set (ancestors (dirname p))"
    using ancestors_shorter [of p "dirname p"] dirname_length [of p] by auto
  moreover have "p \<noteq> dirname p" using dirname_neq [OF False assms] by simp
  ultimately show ?thesis by simp
qed

lemma usable_join:
  assumes "usable n"
  shows "join d n \<noteq> []" and "last (join d n) \<noteq> CHR ''/''" and "\<not> is_root (join d n)"
proof -
  from assms have n: "n \<noteq> []" "CHR ''/'' \<notin> set n" by (auto simp: usable_def)
  then have hd: "hd n \<noteq> CHR ''/''" by (cases n) auto
  have ln: "last n \<noteq> CHR ''/''" using n by (metis last_in_set)
  show "join d n \<noteq> []" using n hd by (auto simp: join_def)
  show l: "last (join d n) \<noteq> CHR ''/''" using n hd ln by (auto simp: join_def)
  have "last (join d n) \<in> set (join d n)" using n hd by (auto simp: join_def)
  with l show "\<not> is_root (join d n)" by (auto simp: is_root_def list_all_iff)
qed

lemma temp_path_eq: "usable n \<Longrightarrow> join (join d n) ''dl'' = join d n @ ''/dl''"
  using usable_join [of n d] by (simp add: join_def)

lemma temp_path_inside: "usable n \<Longrightarrow> inside (join d n) (join (join d n) ''dl'')"
  by (simp add: temp_path_eq inside_def)


subsection \<open>Trailing slashes\<close>

lemma dropWhile_idem: "dropWhile P (dropWhile P xs) = dropWhile P xs"
  by (induction xs) auto

lemma strip_plain: "last p \<noteq> CHR ''/'' \<Longrightarrow> strip_slashes p = p"
proof (cases "p = []")
  case True
  then show ?thesis by (simp add: strip_slashes_def)
next
  case False
  assume "last p \<noteq> CHR ''/''"
  with False have "hd (rev p) \<noteq> CHR ''/''" by (simp add: hd_rev)
  with False have "dropWhile (\<lambda>c. c = CHR ''/'') (rev p) = rev p"
    by (cases "rev p") auto
  then show ?thesis by (simp add: strip_slashes_def)
qed

lemma strip_idem: "strip_slashes (strip_slashes p) = strip_slashes p"
  by (simp add: strip_slashes_def dropWhile_idem)

lemma strip_last: "strip_slashes p \<noteq> [] \<Longrightarrow> last (strip_slashes p) \<noteq> CHR ''/''"
proof -
  assume a: "strip_slashes p \<noteq> []"
  let ?d = "dropWhile (\<lambda>c. c = CHR ''/'') (rev p)"
  from a have d: "?d \<noteq> []" by (simp add: strip_slashes_def)
  then have "\<not> (hd ?d = CHR ''/'')" by (rule hd_dropWhile)
  moreover have "last (rev ?d) = hd ?d" using d by (simp add: last_rev)
  ultimately show ?thesis by (simp add: strip_slashes_def)
qed

lemma key_plain: "last p \<noteq> CHR ''/'' \<Longrightarrow> key p = p"
  by (simp add: key_def strip_plain)

lemma strip_Nil [simp]: "strip_slashes [] = []"
  by (simp add: strip_slashes_def)




lemma dirname_shape: "dirname p = [] \<or> is_root (dirname p) \<or> last (dirname p) \<noteq> CHR ''/''"
proof -
  let ?h = "rev (dropWhile (\<lambda>c. c \<noteq> CHR ''/'') (rev p))"
  show ?thesis
  proof (cases "?h \<noteq> [] \<and> \<not> is_root ?h")
    case True
    then have d: "dirname p = strip_slashes ?h" by (simp add: dirname_def strip_slashes_def)
    show ?thesis using strip_last [of ?h] unfolding d by blast
  next
    case False
    then have "dirname p = ?h" by (auto simp: dirname_def)
    with False show ?thesis by auto
  qed
qed

lemma dirname_key: "key (dirname p) = dirname p"
  using dirname_shape [of p] strip_plain [of "dirname p"] by (auto simp: key_def)

subsection \<open>What the download phase changes\<close>

lemma nodes_put: "nodes (put p n w) = (nodes w)(p \<mapsto> n)"
  by (simp add: put_def)

lemma trace_put [simp]: "trace (put p n w) = trace w"
  by (simp add: put_def)

lemma nodes_mkdirs:
  "nodes (foldr (\<lambda>d. put d Dir) ds w) q = (if q \<in> set ds then Some Dir else nodes w q)"
  by (induction ds) (auto simp: nodes_put)

lemma trace_mkdirs [simp]: "trace (foldr (\<lambda>d. put d Dir) ds w) = trace w"
  by (induction ds) auto

lemma makedirs_frame:
  assumes "makedirs d w = (r, w1)" and "q \<notin> set (ancestors (key d) @ [key d])"
  shows "nodes w1 q = nodes w q"
  using assms by (auto simp: makedirs_def Let_def nodes_mkdirs nodes_put split: if_splits)


lemma makedirs_trace: "makedirs d w = (r, w1) \<Longrightarrow> trace w1 = trace w"
  by (auto simp: makedirs_def Let_def split: if_splits)

lemma makedirs_error_world: "makedirs d w = (Inl e, w1) \<Longrightarrow> w1 = w"
  by (auto simp: makedirs_def Let_def split: if_splits)

lemma makedirs_empty: "makedirs [] w = (Inl (FileNotFoundError []), w)"
  by (simp add: makedirs_def key_def is_root_def)

lemma makedirs_ok_key: "makedirs d w = (Inr u, w1) \<Longrightarrow> nodes w1 (key d) = Some Dir \<and> key d \<noteq> []"
  by (auto simp: makedirs_def Let_def nodes_mkdirs nodes_put split: if_splits)

lemma makedirs_parent_dir:
  assumes "makedirs (dirname p) w = (Inr u, w1)"
  shows "lookup w1 (dirname p) = Some Dir"
proof -
  from makedirs_ok_key [OF assms] have n: "nodes w1 (dirname p) = Some Dir" "dirname p \<noteq> []"
    by (simp_all add: dirname_key)
  from dirname_shape [of p] n(2) show ?thesis
  proof (elim disjE)
    assume "is_root (dirname p)"
    then show ?thesis by (rule lookup_root)
  next
    assume "last (dirname p) \<noteq> CHR ''/''"
    with n show ?thesis by (simp add: lookup_plain)
  qed simp
qed

text \<open>Creating the parent directory never creates the destination itself.\<close>

lemma makedirs_parent_keeps:
  assumes "makedirs (dirname p) w = (r, w1)" and "\<not> is_root p"
  shows "nodes w1 p = nodes w p"
proof (cases "dirname p = []")
  case True
  with assms(1) show ?thesis by (simp add: makedirs_empty)
next
  case False
  with parent_not_self [OF assms(2)] have "p \<notin> set (ancestors (dirname p) @ [dirname p])"
    by blast
  then show ?thesis
    using makedirs_frame [OF assms(1), of p] unfolding dirname_key by blast
qed

lemma find_usable:
  "find (\<lambda>n. usable n \<and> \<not> exists w (join d n)) cs = Some n \<Longrightarrow>
   usable n \<and> \<not> exists w (join d n)"
  by (auto simp: find_Some_iff)

lemma mkdtemp_ok:
  assumes "mkdtemp cs d w = (Inr t, w1)"
  shows "\<exists>n. usable n \<and> t = join d n \<and> \<not> exists w t \<and> w1 = put t Dir w"
  using assms
  by (auto simp: mkdtemp_def split: option.splits node.splits dest!: find_usable)

lemma mkdtemp_error_world: "mkdtemp cs d w = (Inl e, w1) \<Longrightarrow> w1 = w"
  by (auto simp: mkdtemp_def split: option.splits node.splits)


lemma download_invoked:
  "download env url dest quiet w = (r, w1) \<Longrightarrow> Download url dest quiet \<in> set (trace w1)"
  by (auto simp: download_def Let_def split: outcome.splits option.splits)


lemma download_returned:
  assumes "download env url dest quiet w = (Inr u, w1)"
  shows "\<exists>c. transport env url dest quiet = Returned c \<and>
     nodes w1 = (case c of None \<Rightarrow> nodes w | Some bytes \<Rightarrow> (nodes w)(dest \<mapsto> File bytes))"
  using assms
  by (auto simp: download_def Let_def nodes_put split: outcome.splits option.splits)

lemma os_rename_trace: "os_rename src dst w = (r, w1) \<Longrightarrow> trace w1 = trace w"
  by (auto simp: os_rename_def split: option.splits node.splits if_splits)

lemma os_rename_error_world: "os_rename src dst w = (Inl e, w1) \<Longrightarrow> w1 = w"
  by (auto simp: os_rename_def split: option.splits node.splits if_splits)

lemma copyfile_trace: "copyfile src dst w = (r, w1) \<Longrightarrow> trace w1 = trace w"
  by (auto simp: copyfile_def split: option.splits node.splits if_splits)

lemma copytree_trace: "copytree src dst w = (r, w1) \<Longrightarrow> trace w1 = trace w"
  by (auto simp: copytree_def split: prod.splits sum.splits dest: makedirs_trace)

lemma trace_rmtree [simp]: "trace (rmtree t w) = trace w"
  by (simp add: rmtree_def)

lemma trace_unlink [simp]: "trace (unlink p w) = trace w"
  by (simp add: unlink_def)

lemma move_trace:
  assumes "move src dst w = (r, w1)"
  shows "trace w1 = trace w"
proof -
  let ?rd = "if lookup w dst = Some Dir then join dst (basename (key src)) else dst"
  obtain r0 w0 where rn: "os_rename src ?rd w = (r0, w0)"
    by (cases "os_rename src ?rd w") auto
  have t0: "trace w0 = trace w" using rn by (rule os_rename_trace)
  obtain r2 w2 where ct: "copytree src ?rd w0 = (r2, w2)"
    by (cases "copytree src ?rd w0") auto
  have t2: "trace w2 = trace w" using copytree_trace [OF ct] t0 by simp
  obtain r3 w3 where cf: "copyfile src ?rd w0 = (r3, w3)"
    by (cases "copyfile src ?rd w0") auto
  have t3: "trace w3 = trace w" using copyfile_trace [OF cf] t0 by simp
  show ?thesis
    using assms rn ct cf t0 t2 t3
    by (auto simp: move_def Let_def split: if_splits sum.splits)
qed

lemma acquire_lock_trace:
  "acquire_lock l w = (r, w1) \<Longrightarrow> trace w1 = trace w @ [Locked l]"
  by (auto simp: acquire_lock_def Let_def split: if_splits)

lemma nodes_rmtree: "nodes (rmtree t w) q = (if inside t q then None else nodes w q)"
  by (simp add: rmtree_def)

lemma inside_self [simp]: "inside t t"
  by (simp add: inside_def)

lemma inside_nonempty: "t \<noteq> [] \<Longrightarrow> inside t q \<Longrightarrow> q \<noteq> []"
  by (auto simp: inside_def)


lemma lookup_rmtree_outside:
  assumes "q \<noteq> []" and "last q \<noteq> CHR ''/''" and "\<not> inside t q"
  shows "lookup (rmtree t w) q = nodes w q"
  using assms by (simp add: lookup_plain nodes_rmtree)

subsection \<open>The staged transfer\<close>


lemma staging_dir:
  assumes "mkdtemp cs d w = (Inr t, w1)"
  shows "t \<noteq> []" and "last t \<noteq> CHR ''/''" and "\<not> exists w t" and "w1 = put t Dir w"
    and "inside t (join t ''dl'')" and "join t ''dl'' = t @ ''/dl''"
proof -
  from mkdtemp_ok [OF assms] obtain n where n: "usable n" "t = join d n"
    "\<not> exists w t" "w1 = put t Dir w" by auto
  show "t \<noteq> []" "last t \<noteq> CHR ''/''" using usable_join [OF n(1)] n(2) by auto
  show "\<not> exists w t" "w1 = put t Dir w" using n by auto
  show "inside t (join t ''dl'')" using temp_path_inside [OF n(1)] n(2) by simp
  show "join t ''dl'' = t @ ''/dl''" using temp_path_eq [OF n(1)] n(2) by simp
qed




subsection \<open>The demo environment in the download phase\<close>

lemma demo_root: "cache_root demo_env = ''/home/user/.cache/gdown''"
  by (simp add: cache_root_def demo_env_def join_def)




lemma demo_makedirs:
  "nodes w = nodes demo_world \<Longrightarrow>
   makedirs ''/home/user/.cache/gdown'' w = (Inl (FileExistsError ''/home/user/.cache/gdown''), w)"
  by (simp add: makedirs_def key_plain exists_def lookup_plain demo_world_def demo_nodes_def)

lemma demo_mkdtemp:
  "nodes w = nodes demo_world \<Longrightarrow>
   mkdtemp [''tmpa1'', ''tmpb2''] ''/home/user/.cache/gdown'' w =
     (Inr ''/home/user/.cache/gdown/tmpa1'', put ''/home/user/.cache/gdown/tmpa1'' Dir w)"
  by (simp add: mkdtemp_def exists_def lookup_plain demo_world_def demo_nodes_def usable_def
      join_def)

lemma demo_candidates: "candidates demo_env = [''tmpa1'', ''tmpb2'']"
  "candidates failing_env = [''tmpa1'', ''tmpb2'']"
  by (simp_all add: demo_env_def failing_env_def)




subsection \<open>A failed transfer\<close>




text \<open>
  What the amended statement leaves out. With the destination on another device the move
  is a copy, and a copy that fails for want of room leaves its first bytes at the
  destination, where nothing was before; the handler does not remove them.
\<close>

lemma failed_move_leaves_partial_file:
  "lookup split_world ''/data/new.bin'' = None
   \<and> fst (cached_download demo_env (Some ''u'') (Some ''/data/new.bin'') None True None
            (put ''/data'' Dir split_world))
       = Inl (OSError ''No space left on device'')
   \<and> lookup (snd (cached_download demo_env (Some ''u'') (Some ''/data/new.bin'') None True None
            (put ''/data'' Dir split_world)))
        ''/data/new.bin'' = Some (File ''he'')"
proof -
  let ?p = "''/data/new.bin''"
  let ?t = "''/home/user/.cache/gdown/tmpa1''"
  let ?tmp = "''/home/user/.cache/gdown/tmpa1/dl''"
  let ?l = "''/home/user/.cache/gdown/_dl_lock''"
  let ?w = "put ''/data'' Dir split_world"
  let ?w3 = "put ?t Dir ?w"
  let ?wd = "put ?tmp (File ''hello'') (emit (Download (Some ''u'') ?tmp True) ?w3)"
  let ?wl = "put ?l (File []) (emit (Locked ?l) ?wd)"
  let ?wf = "put ?p (File ''he'') ?wl"
  have nw: "nodes split_world = demo_nodes"
    by (simp add: split_world_def demo_world_def)
  have l: "lookup split_world ?p = None" "lookup ?w ?p = None"
    by (simp_all add: lookup_plain nodes_put split_world_def demo_world_def demo_nodes_def)
  have c: "check_existence demo_env ?p None True ?w = (Inr None, ?w)"
    using l by (simp add: check_existence_def exists_def)
  have d: "dirname ?p = ''/data''" "dirname ?l = ''/home/user/.cache/gdown''"
    by (simp_all add: dirname_def is_root_def)
  have mk: "makedirs ''/data'' ?w = (Inl (FileExistsError ''/data''), ?w)"
    by (simp add: makedirs_def Let_def key_plain exists_def lookup_plain nodes_put)
  have md: "mkdtemp [''tmpa1'', ''tmpb2''] ''/home/user/.cache/gdown'' ?w = (Inr ?t, ?w3)"
    by (simp add: mkdtemp_def exists_def lookup_plain nodes_put nw demo_nodes_def usable_def
        join_def)
  have dl: "download demo_env (Some ''u'') ?tmp True ?w3 = (Inr (), ?wd)"
    by (simp add: download_def demo_env_def Let_def)
  have lk: "acquire_lock ?l ?wd = (Inr (), ?wl)"
    by (simp add: acquire_lock_def Let_def parent_ok_def d lookup_plain trailing_def nodes_put
        nw demo_nodes_def)
  have xd: "cross_device ?wl a b" "quota ?wl a = Some 2" for a b
    by (simp_all add: put_def emit_def split_world_def)
  have rn: "os_rename ?tmp ?p ?wl = (Inl (OSError ''Invalid cross-device link''), ?wl)"
    by (simp add: os_rename_def lookup_plain nodes_put parent_ok_def d trailing_def xd nw
        demo_nodes_def)
  have cp: "copyfile ?tmp ?p ?wl = (Inl (OSError ''No space left on device''), ?wf)"
    by (simp add: copyfile_def lookup_plain nodes_put parent_ok_def d trailing_def xd nw
        demo_nodes_def)
  have mv: "move ?tmp ?p ?wl = (Inl (OSError ''No space left on device''), ?wf)"
    by (simp add: move_def Let_def rn cp lookup_plain nodes_put nw demo_nodes_def)
  have tr: "transfer demo_env (Some ''u'') ?p True ?l ?t ?w3
      = (Inl (OSError ''No space left on device''), ?wf)"
    by (simp add: transfer_def Let_def join_def dl lk mv)
  have sg: "stage demo_env (Some ''u'') ?p True ?l ?w
      = (Inl (OSError ''No space left on device''), rmtree ?t ?wf)"
    by (simp add: stage_def demo_root demo_candidates md tr)
  have st: "stage_and_transfer demo_env (Some ''u'') ?p True ?w
      = (Inl (OSError ''No space left on device''), rmtree ?t ?wf)"
    by (simp add: stage_and_transfer_def Let_def d mk demo_root join_def sg)
  have cd: "cached_download demo_env (Some ''u'') (Some ?p) None True None ?w
      = (Inl (OSError ''No space left on device''), rmtree ?t ?wf)"
    by (simp add: cached_download_def resolve_path_def c st)
  have "lookup (rmtree ?t ?wf) ?p = Some (File ''he'')"
    by (simp add: lookup_plain nodes_rmtree inside_def nodes_put)
  with l(1) cd show ?thesis by simp
qed

subsection \<open>A move that succeeds\<close>

lemma devices_emit [simp]: "cross_device (emit ev w) = cross_device w" "quota (emit ev w) = quota w"
  by (simp_all add: emit_def)

lemma devices_put [simp]: "cross_device (put p n w) = cross_device w" "quota (put p n w) = quota w"
  by (simp_all add: put_def)

text \<open>On one device, a regular file moved to a plain name whose directory exists.\<close>

lemma move_file:
  assumes "lookup w src = Some (File c)"
    and "dst \<noteq> []" and "last dst \<noteq> CHR ''/''"
    and "nodes w dst \<noteq> Some Dir"
    and "parent_ok w dst"
    and "\<not> cross_device w src dst"
  shows "move src dst w = (Inr (), w\<lparr>nodes := ((nodes w)(src := None))(dst \<mapsto> File c)\<rparr>)"
proof -
  have l: "lookup w dst = nodes w dst" using assms(2,3) by (rule lookup_plain)
  have t: "\<not> trailing dst" using assms(3) by (rule not_trailing_last)
  have "os_rename src dst w =
      (Inr (), w\<lparr>nodes := ((nodes w)(src := None))(dst \<mapsto> File c)\<rparr>)"
    using assms l t by (simp add: os_rename_def)
  then show ?thesis using l assms(4) by (simp add: move_def Let_def)
qed

subsection \<open>The demo environment, a download that succeeds\<close>

lemma demo_transport: "transport demo_env url dest quiet = Returned (Some ''hello'')"
  by (simp add: demo_env_def)

lemma demo_download:
  "download demo_env url dest quiet w =
     (Inr (), put dest (File ''hello'') (emit (Download url dest quiet) w))"
  by (simp add: download_def demo_transport Let_def)

lemma demo_devices: "cross_device demo_world = (\<lambda>src dst. False)"
  by (simp add: demo_world_def)

lemma demo_lock:
  assumes "nodes w ''/home/user/.cache/gdown'' = Some Dir"
    and "nodes w ''/home/user/.cache/gdown/_dl_lock'' \<noteq> Some Dir"
  shows "acquire_lock ''/home/user/.cache/gdown/_dl_lock'' w =
     (Inr (), put ''/home/user/.cache/gdown/_dl_lock'' (File [])
                (emit (Locked ''/home/user/.cache/gdown/_dl_lock'') w))"
proof -
  have "dirname ''/home/user/.cache/gdown/_dl_lock'' = ''/home/user/.cache/gdown''"
    by (simp add: dirname_def is_root_def)
  then show ?thesis
    using assms by (simp add: acquire_lock_def Let_def parent_ok_def lookup_plain trailing_def)
qed

text \<open>
  The staged transfer in the demo world, for a destination with a plain name that is not
  a directory and whose directory exists.
\<close>

lemma demo_stage:
  assumes n: "nodes w = nodes demo_world" and x: "cross_device w = cross_device demo_world"
    and p: "p \<noteq> []" "last p \<noteq> CHR ''/''" "demo_nodes p \<noteq> Some Dir"
      "p \<noteq> ''/home/user/.cache/gdown/tmpa1''"
      "p \<noteq> ''/home/user/.cache/gdown/tmpa1/dl''"
    and par: "dirname p = [] \<or> dirname p = ''/home/user/.cache/gdown''"
  shows "stage demo_env url p True ''/home/user/.cache/gdown/_dl_lock'' w =
     (Inr (),
      w\<lparr>trace := trace w @
           [Download url ''/home/user/.cache/gdown/tmpa1/dl'' True,
            Locked ''/home/user/.cache/gdown/_dl_lock''],
        nodes := demo_nodes
           (''/home/user/.cache/gdown/tmpa1'' \<mapsto> Dir,
            ''/home/user/.cache/gdown/_dl_lock'' \<mapsto> File [],
            p \<mapsto> File ''hello'')\<rparr>)"
proof -
  let ?t = "''/home/user/.cache/gdown/tmpa1''"
  let ?tmp = "''/home/user/.cache/gdown/tmpa1/dl''"
  let ?l = "''/home/user/.cache/gdown/_dl_lock''"
  let ?w3 = "put ?t Dir w"
  let ?wd = "put ?tmp (File ''hello'') (emit (Download url ?tmp True) ?w3)"
  let ?wl = "put ?l (File []) (emit (Locked ?l) ?wd)"
  have nd: "nodes w = demo_nodes" using n by (simp add: demo_world_def)
  have md: "mkdtemp [''tmpa1'', ''tmpb2''] ''/home/user/.cache/gdown'' w = (Inr ?t, ?w3)"
    using n by (rule demo_mkdtemp)
  have lk: "acquire_lock ?l ?wd = (Inr (), ?wl)"
    by (rule demo_lock) (simp_all add: nodes_put nd demo_nodes_def)
  have src: "lookup ?wl ?tmp = Some (File ''hello'')"
    by (simp add: lookup_plain nodes_put)
  have dst: "nodes ?wl p \<noteq> Some Dir"
    using p(3,4,5) by (simp add: nodes_put nd)
  have po: "parent_ok ?wl p"
    using par by (auto simp: parent_ok_def lookup_plain nodes_put nd demo_nodes_def)
  have xd: "\<not> cross_device ?wl ?tmp p" using x by (simp add: demo_devices)
  have mv: "move ?tmp p ?wl =
      (Inr (), ?wl\<lparr>nodes := ((nodes ?wl)(?tmp := None))(p \<mapsto> File ''hello'')\<rparr>)"
    using src p(1,2) dst po xd by (rule move_file)
  have tr: "transfer demo_env url p True ?l ?t ?w3 =
      (Inr (), ?wl\<lparr>nodes := ((nodes ?wl)(?tmp := None))(p \<mapsto> File ''hello'')\<rparr>)"
    by (simp add: transfer_def Let_def join_def demo_download lk mv)
  have sg: "stage demo_env url p True ?l w =
      (Inr (), ?wl\<lparr>nodes := ((nodes ?wl)(?tmp := None))(p \<mapsto> File ''hello'')\<rparr>)"
    by (simp add: stage_def demo_root demo_candidates md tr)
  have eq: "((nodes ?wl)(?tmp := None))(p \<mapsto> File ''hello'') =
      demo_nodes(?t \<mapsto> Dir, ?l \<mapsto> File [], p \<mapsto> File ''hello'')"
    by (rule ext) (simp add: nodes_put nd demo_nodes_def)
  show ?thesis
    unfolding sg eq by (simp add: put_def emit_def)
qed

lemma demo_stage_and_transfer:
  assumes n: "nodes w = nodes demo_world" and x: "cross_device w = cross_device demo_world"
    and p: "p = ''/home/user/.cache/gdown/new'' \<or> p = ''/home/user/.cache/gdown/stale''
            \<or> p = ''out.bin''"
  shows "stage_and_transfer demo_env url p True w =
     (Inr (),
      w\<lparr>trace := trace w @
           [Download url ''/home/user/.cache/gdown/tmpa1/dl'' True,
            Locked ''/home/user/.cache/gdown/_dl_lock''],
        nodes := demo_nodes
           (''/home/user/.cache/gdown/tmpa1'' \<mapsto> Dir,
            ''/home/user/.cache/gdown/_dl_lock'' \<mapsto> File [],
            p \<mapsto> File ''hello'')\<rparr>)"
proof -
  have d: "dirname p = [] \<or> dirname p = ''/home/user/.cache/gdown''"
    using p by (auto simp: dirname_def is_root_def)
  have mk: "\<exists>e. makedirs (dirname p) w = (Inl e, w) \<and> is_OSError e"
    using d n by (auto simp: makedirs_empty demo_makedirs)
  have "stage demo_env url p True ''/home/user/.cache/gdown/_dl_lock'' w =
     (Inr (),
      w\<lparr>trace := trace w @
           [Download url ''/home/user/.cache/gdown/tmpa1/dl'' True,
            Locked ''/home/user/.cache/gdown/_dl_lock''],
        nodes := demo_nodes
           (''/home/user/.cache/gdown/tmpa1'' \<mapsto> Dir,
            ''/home/user/.cache/gdown/_dl_lock'' \<mapsto> File [],
            p \<mapsto> File ''hello'')\<rparr>)"
    using n x _ _ _ _ _ d
  proof (rule demo_stage)
    show "p \<noteq> []" "last p \<noteq> CHR ''/''" "demo_nodes p \<noteq> Some Dir"
      "p \<noteq> ''/home/user/.cache/gdown/tmpa1''" "p \<noteq> ''/home/user/.cache/gdown/tmpa1/dl''"
      using p by (auto simp: demo_nodes_def)
  qed
  with mk show ?thesis
    by (auto simp: stage_and_transfer_def Let_def demo_root join_def)
qed

lemma demo_lookup_new: "lookup demo_world ''/home/user/.cache/gdown/new'' = None"
  by (simp add: lookup_plain demo_world_def demo_nodes_def)

lemma check_existence_absent:
  "\<not> exists w p \<Longrightarrow> check_existence env p md5 quiet w = (Inr None, w)"
  by (simp add: check_existence_def)

subsection \<open>After the move\<close>

lemma assert_md5sum_world_file:
  assumes "length m = 32" and "lookup w p = Some (File c)" and "hexdigest_of env 65536 c \<noteq> m"
  shows "assert_md5sum env p (Some m) quiet b w =
     (Inl (AssertionError (mismatch_msg (hexdigest_of env 65536 c) m)),
      emit (Opened p) (say quiet (''Computing MD5: '' @ p) w))"
  using assms by (simp add: assert_md5sum_file)

text \<open>
  Claim C7: when a checksum of 32 characters is supplied and, after the transfer has
  moved the downloaded file to the destination, the digest of that file differs from it,
  \<^verbatim>\<open>cached_download\<close> raises the \<^verbatim>\<open>AssertionError\<close> of \<^verbatim>\<open>assert_md5sum\<close> to its
  caller: nothing catches it, the postprocess hook is not reached, and the world is the
  one in which the digest was computed.
\<close>

theorem post_download_mismatch_propagates:
  assumes "resolve_path env url path = Inr p"
    and "check_existence env p md5 quiet w = (Inr None, w1)"
    and "stage_and_transfer env url p quiet w1 = (Inr (), w2)"
    and "md5 = Some m" and "length m = 32"
    and "lookup w2 p = Some (File c)"
    and "hexdigest_of env 65536 c \<noteq> m"
  shows "cached_download env url path md5 quiet postprocess w =
     (Inl (AssertionError (mismatch_msg (hexdigest_of env 65536 c) m)),
      emit (Opened p) (say quiet (''Computing MD5: '' @ p) w2))"
proof -
  have t: "truthy md5" using assms(4,5) by (auto simp: truthy_def)
  have "finish env p md5 quiet postprocess w2 =
     (Inl (AssertionError (mismatch_msg (hexdigest_of env 65536 c) m)),
      emit (Opened p) (say quiet (''Computing MD5: '' @ p) w2))"
    using t assms(4) assert_md5sum_world_file [OF assms(5,6,7)] by (simp add: finish_def)
  then show ?thesis using assms(1,2,3) by (simp add: cached_download_def)
qed

theorem post_download_mismatch_propagates_witness:
  "cached_download demo_env (Some ''u'') (Some ''/home/user/.cache/gdown/new'')
      (Some ''00000000000000000000000000000000'') True
      (Some (\<lambda>p w. (Inr (), w))) demo_world
   = (Inl (AssertionError
        (mismatch_msg ''hello000000000000000000000000000''
           ''00000000000000000000000000000000'')),
      demo_world\<lparr>trace :=
           [Download (Some ''u'') ''/home/user/.cache/gdown/tmpa1/dl'' True,
            Locked ''/home/user/.cache/gdown/_dl_lock'',
            Opened ''/home/user/.cache/gdown/new''],
        nodes := demo_nodes
           (''/home/user/.cache/gdown/tmpa1'' \<mapsto> Dir,
            ''/home/user/.cache/gdown/_dl_lock'' \<mapsto> File [],
            ''/home/user/.cache/gdown/new'' \<mapsto> File ''hello'')\<rparr>)"
proof -
  let ?p = "''/home/user/.cache/gdown/new''"
  let ?w2 = "demo_world\<lparr>trace := trace demo_world @
           [Download (Some ''u'') ''/home/user/.cache/gdown/tmpa1/dl'' True,
            Locked ''/home/user/.cache/gdown/_dl_lock''],
        nodes := demo_nodes
           (''/home/user/.cache/gdown/tmpa1'' \<mapsto> Dir,
            ''/home/user/.cache/gdown/_dl_lock'' \<mapsto> File [],
            ''/home/user/.cache/gdown/new'' \<mapsto> File ''hello'')\<rparr>"
  have r: "resolve_path demo_env (Some ''u'') (Some ?p) = Inr ?p"
    by (simp add: resolve_path_def)
  have c: "check_existence demo_env ?p (Some ''00000000000000000000000000000000'') True
      demo_world = (Inr None, demo_world)"
    by (rule check_existence_absent) (simp add: exists_def demo_lookup_new)
  have s: "stage_and_transfer demo_env (Some ''u'') ?p True demo_world = (Inr (), ?w2)"
    by (rule demo_stage_and_transfer) simp_all
  have l: "lookup ?w2 ?p = Some (File ''hello'')"
    by (simp add: lookup_plain)
  have d: "hexdigest_of demo_env 65536 ''hello'' \<noteq> ''00000000000000000000000000000000''"
    by (simp add: demo_hexdigest eval_nat_numeral)
  have n: "length ''00000000000000000000000000000000'' = 32" by simp
  show ?thesis
    using post_download_mismatch_propagates [OF r c s refl n l d,
        of "Some (\<lambda>p w. (Inr (), w))"]
    by (simp add: demo_hexdigest eval_nat_numeral say_def emit_def demo_world_def)
qed

lemma assert_md5sum_AssertionError:
  assumes "assert_md5sum env p md5 quiet b w = (Inl e, w1)" and "is_AssertionError e"
  shows "\<exists>c. lookup w p = Some (File c)"
proof -
  from assms obtain m where m: "md5 = Some m" "length m = 32"
    by (cases md5) (auto simp: assert_md5sum_def split: if_splits)
  obtain r w0 where d: "md5sum env p None (say quiet (''Computing MD5: '' @ p) w) = (r, w0)"
    by (cases "md5sum env p None (say quiet (''Computing MD5: '' @ p) w)") auto
  show ?thesis
  proof (cases r)
    case (Inl e0)
    with assms m d have "e = e0" by (simp add: assert_md5sum_def)
    with d Inl assms(2) show ?thesis
      by (auto simp: md5sum_def Let_def split: option.splits node.splits)
  next
    case (Inr dg)
    with d md5sum_ok [of env p "say quiet (''Computing MD5: '' @ p) w" dg w0]
    show ?thesis by auto
  qed
qed

lemma check_existence_continue:
  assumes "check_existence env p md5 quiet w = (Inr None, w1)"
  shows "lookup w p \<noteq> Some Dir" and "nodes w1 = nodes w"
proof -
  show "nodes w1 = nodes w" using assms by (rule check_existence_nodes)
  show "lookup w p \<noteq> Some Dir"
  proof (cases "exists w p")
    case False
    then show ?thesis by (simp add: exists_def)
  next
    case True
    with assms have t: "truthy md5"
      by (auto simp: check_existence_def split: if_splits)
    obtain r w0 where a: "assert_md5sum env p md5 quiet None w = (r, w0)"
      by (cases "assert_md5sum env p md5 quiet None w") auto
    with assms True t obtain e where "r = Inl e" "is_AssertionError e"
      by (cases r) (auto simp: check_existence_def split: if_splits)
    with a assert_md5sum_AssertionError [of env p md5 quiet None w e w0]
    show ?thesis by auto
  qed
qed

lemma os_rename_file_ok:
  assumes "os_rename src dst w = (Inr u, w1)" and "lookup w src = Some (File c)"
  shows "nodes w1 dst = Some (File c)" and "dst \<noteq> []" and "\<not> trailing dst"
  using assms by (auto simp: os_rename_def split: if_splits)

lemma copyfile_ok:
  assumes "copyfile src dst w = (Inr u, w1)" and "lookup w src = Some (File c)"
  shows "w1 = put dst (File c) w" and "src \<noteq> dst" and "dst \<noteq> []" and "\<not> trailing dst"
  using assms by (auto simp: copyfile_def split: if_splits option.splits)

lemma move_file_ok:
  assumes mv: "move src dst w = (Inr u, w1)"
    and src: "lookup w src = Some (File c)"
    and dst: "lookup w dst \<noteq> Some Dir"
  shows "lookup w1 dst = Some (File c)"
proof -
  obtain r0 w0 where rn: "os_rename src dst w = (r0, w0)"
    by (cases "os_rename src dst w") auto
  have "nodes w1 dst = Some (File c) \<and> dst \<noteq> [] \<and> \<not> trailing dst"
  proof (cases r0)
    case (Inr u0)
    with mv dst rn have "w1 = w0" by (simp add: move_def Let_def)
    with os_rename_file_ok [OF rn [unfolded Inr] src] show ?thesis by simp
  next
    case (Inl e)
    with rn have w0: "w0 = w" by (auto dest: os_rename_error_world)
    obtain r2 w2 where cf: "copyfile src dst w = (r2, w2)"
      by (cases "copyfile src dst w") auto
    from mv dst rn Inl w0 src cf obtain u2 where r2: "r2 = Inr u2" and w1: "w1 = unlink src w2"
      by (cases r2) (auto simp: move_def Let_def)
    note ok = copyfile_ok [OF cf [unfolded r2] src]
    from ok(1,2) w1 have "nodes w1 dst = Some (File c)"
      by (simp add: unlink_def nodes_put)
    with ok(3,4) show ?thesis by simp
  qed
  then have "nodes w1 dst = Some (File c)" "dst \<noteq> []" "last dst \<noteq> CHR ''/''"
    by (auto simp: trailing_def)
  then show ?thesis using lookup_plain [of dst w1] by simp
qed

lemma last_join: "b \<noteq> [] \<Longrightarrow> last (join a b) = last b"
  by (auto simp: join_def)

text \<open>
  A transfer that succeeds on a destination that was not a directory puts there what the
  transport wrote into the staging file.
\<close>

lemma stage_places_file:
  assumes m: "mkdtemp (candidates env) (cache_root env) w = (Inr t, w1)"
    and tr: "transfer env url p quiet l t w1 = (Inr u, w2)"
    and nd: "lookup w p \<noteq> Some Dir"
    and nt: "\<not> trailing p"
    and lt: "l \<noteq> join t ''dl''"
    and tp: "transport env url (join t ''dl'') quiet = Returned (Some c)"
  shows "lookup w2 p = Some (File c)"
proof -
  let ?tmp = "join t ''dl''"
  note sd = staging_dir [OF m]
  have tmp_pl: "?tmp \<noteq> []" "last ?tmp \<noteq> CHR ''/''" by (simp_all add: sd(6))
  let ?w0 = "if \<not> quiet
      then emit (Stderr (if p \<noteq> [] then ''Cached Downloading: '' @ p
                         else ''Cached Downloading...'')) w1
      else w1"
  obtain r wc where d: "download env url ?tmp quiet ?w0 = (r, wc)"
    by (cases "download env url ?tmp quiet ?w0") auto
  with tr obtain u0 where r: "r = Inr u0"
    by (cases r) (auto simp: transfer_def Let_def)
  obtain r1 wl where lk: "acquire_lock l wc = (r1, wl)"
    by (cases "acquire_lock l wc") auto
  with tr d r obtain u1 where r1: "r1 = Inr u1"
    by (cases r1) (auto simp: transfer_def Let_def)
  from tr d r lk r1 have mv: "move ?tmp p wl = (Inr u, w2)"
    by (simp add: transfer_def Let_def)
  from download_returned [OF d [unfolded r]] tp
  have nc: "nodes wc = (nodes w1)(?tmp \<mapsto> File c)" by auto
  from lk r1 have nl: "nodes wl = (nodes wc)(l \<mapsto> File [])"
    by (auto simp: acquire_lock_def Let_def nodes_put split: if_splits)
  have src: "lookup wl ?tmp = Some (File c)"
    using nl nc lt lookup_plain [OF tmp_pl, of wl] by simp
  have not_dir: "lookup wl p \<noteq> Some Dir"
  proof
    assume dir: "lookup wl p = Some Dir"
    then have pe: "p \<noteq> []" by (auto simp: lookup_def)
    with nt have pl: "last p \<noteq> CHR ''/''" by (simp add: trailing_def)
    have lw: "lookup wl p = nodes wl p" "lookup w p = nodes w p"
      using pe pl by (rule lookup_plain)+
    have "p = t"
    proof (rule ccontr)
      assume "p \<noteq> t"
      with dir lw nl nc sd(4) nd show False
        by (auto simp: nodes_put split: if_splits)
    qed
    have "basename ?tmp = ''dl''" by (rule basename_no_slash) simp
    moreover have "key ?tmp = ?tmp" using tmp_pl(2) by (rule key_plain)
    moreover have "key p = p" using pl by (rule key_plain)
    ultimately have j: "join p (basename (key ?tmp)) = ?tmp" "key ?tmp \<noteq> key p"
      using \<open>p = t\<close> sd(6) by simp_all
    with mv dir src show False by (simp add: move_def Let_def exists_def)
  qed
  from mv src not_dir show ?thesis by (rule move_file_ok)
qed

lemma transfer_places_file:
  assumes ck: "check_existence env p md5 quiet w = (Inr None, w1)"
    and st: "stage_and_transfer env url p quiet w1 = (Inr (), w2)"
    and nt: "\<not> trailing p"
  shows "\<exists>t. fst (mkdtemp (candidates env) (cache_root env)
                   (snd (makedirs (dirname p) w1))) = Inr t
            \<and> (\<forall>c. transport env url (join t ''dl'') quiet = Returned (Some c) \<longrightarrow>
                  lookup w2 p = Some (File c))"
proof -
  let ?l = "join (cache_root env) ''_dl_lock''"
  note cc = check_existence_continue [OF ck]
  have nd1: "lookup w1 p \<noteq> Some Dir" using cc lookup_cong [of w1 w p] by simp
  then have nr: "\<not> is_root p" using lookup_root [of p w1] by blast
  obtain r wa where mk: "makedirs (dirname p) w1 = (r, wa)"
    by (cases "makedirs (dirname p) w1") auto
  have sg: "stage env url p quiet ?l wa = (Inr (), w2)"
    using st mk by (cases r) (auto simp: stage_and_transfer_def Let_def split: if_splits)
  have nda: "lookup wa p \<noteq> Some Dir"
  proof (cases "p = []")
    case True
    then show ?thesis by (simp add: lookup_def)
  next
    case False
    with nt have pl: "last p \<noteq> CHR ''/''" by (simp add: trailing_def)
    show ?thesis
      using makedirs_parent_keeps [OF mk nr] nd1 lookup_plain [OF False pl] by simp
  qed
  obtain r2 wb where md: "mkdtemp (candidates env) (cache_root env) wa = (r2, wb)"
    by (cases "mkdtemp (candidates env) (cache_root env) wa") auto
  with sg obtain t where t: "r2 = Inr t" by (cases r2) (auto simp: stage_def)
  obtain r3 wc where tr: "transfer env url p quiet ?l t wb = (r3, wc)"
    by (cases "transfer env url p quiet ?l t wb") auto
  with sg md t have tr': "transfer env url p quiet ?l t wb = (Inr (), w2)"
    by (cases r3) (auto simp: stage_def split: if_splits)
  have "last ?l = CHR ''k''" by (simp add: last_join)
  moreover have "last (join t ''dl'') = CHR ''l''" by (simp add: last_join)
  ultimately have lt: "?l \<noteq> join t ''dl''" by auto
  have "lookup w2 p = Some (File c)"
    if "transport env url (join t ''dl'') quiet = Returned (Some c)" for c
    using stage_places_file [OF md [unfolded t] tr' nda nt lt that] .
  then show ?thesis using mk md t by auto
qed

text \<open>
  Claim C9: once the transfer has moved the downloaded file to the destination, a later
  failure removes nothing. If the verification raises, the call raises that error and
  the filesystem is the one the move left; if the postprocess hook raises, the call raises
  that error in the very world the hook left behind: \<^verbatim>\<open>cached_download\<close> itself rolls
  nothing back. And what the move left at the destination is the file the transport
  delivered, for a destination spelled in normal form (a destination spelled with a
  trailing slash names a directory, and the file is moved into it).
\<close>

theorem placed_file_not_rolled_back:
  assumes "resolve_path env url path = Inr p"
    and "check_existence env p md5 quiet w = (Inr None, w1)"
    and "stage_and_transfer env url p quiet w1 = (Inr (), w2)"
  shows "(\<forall>e w3. truthy md5 \<and> assert_md5sum env p md5 quiet None w2 = (Inl e, w3) \<longrightarrow>
            cached_download env url path md5 quiet postprocess w = (Inl e, w3)
            \<and> nodes w3 = nodes w2)
     \<and> (\<forall>f e w3 w4.
            postprocess = Some f
            \<and> (if truthy md5 then assert_md5sum env p md5 quiet None w2 else (Inr True, w2))
                = (Inr True, w3)
            \<and> f p (emit (Postprocess p) w3) = (Inl e, w4) \<longrightarrow>
            cached_download env url path md5 quiet postprocess w = (Inl e, w4)
            \<and> nodes w3 = nodes w2)
     \<and> (normal p \<longrightarrow>
          (\<exists>t. fst (mkdtemp (candidates env) (cache_root env)
                   (snd (makedirs (dirname p) w1))) = Inr t
            \<and> (\<forall>c. transport env url (join t ''dl'') quiet = Returned (Some c) \<longrightarrow>
                  lookup w2 p = Some (File c))))"
proof (intro conjI allI impI)
  fix e w3
  assume a: "truthy md5 \<and> assert_md5sum env p md5 quiet None w2 = (Inl e, w3)"
  then have "finish env p md5 quiet postprocess w2 = (Inl e, w3)"
    by (simp add: finish_def)
  then show "cached_download env url path md5 quiet postprocess w = (Inl e, w3)"
    using assms by (simp add: cached_download_def)
  from a show "nodes w3 = nodes w2" by (auto dest: assert_md5sum_nodes)
next
  fix f e w3 w4
  assume a: "postprocess = Some f
     \<and> (if truthy md5 then assert_md5sum env p md5 quiet None w2 else (Inr True, w2))
         = (Inr True, w3)
     \<and> f p (emit (Postprocess p) w3) = (Inl e, w4)"
  then have "finish env p md5 quiet postprocess w2 = (Inl e, w4)"
    by (simp add: finish_def)
  then show "cached_download env url path md5 quiet postprocess w = (Inl e, w4)"
    using assms by (simp add: cached_download_def)
  from a show "nodes w3 = nodes w2"
    by (auto split: if_splits dest: assert_md5sum_nodes)
next
  assume "normal p"
  then have "\<not> trailing p" by (simp add: normal_def trailing_def)
  with assms(2,3)
  show "\<exists>t. fst (mkdtemp (candidates env) (cache_root env)
                   (snd (makedirs (dirname p) w1))) = Inr t
            \<and> (\<forall>c. transport env url (join t ''dl'') quiet = Returned (Some c) \<longrightarrow>
                  lookup w2 p = Some (File c))"
    by (rule transfer_places_file)
qed


theorem placed_file_not_rolled_back_witness:
  "cached_download demo_env (Some ''u'') (Some ''/home/user/.cache/gdown/new'') None True
      (Some (\<lambda>p w. (Inl (ValueError ''not an archive''), w))) demo_world
   = (Inl (ValueError ''not an archive''),
      demo_world\<lparr>trace :=
           [Download (Some ''u'') ''/home/user/.cache/gdown/tmpa1/dl'' True,
            Locked ''/home/user/.cache/gdown/_dl_lock'',
            Postprocess ''/home/user/.cache/gdown/new''],
        nodes := demo_nodes
           (''/home/user/.cache/gdown/tmpa1'' \<mapsto> Dir,
            ''/home/user/.cache/gdown/_dl_lock'' \<mapsto> File [],
            ''/home/user/.cache/gdown/new'' \<mapsto> File ''hello'')\<rparr>)
   \<and> fst (cached_download demo_env (Some ''u'') (Some ''/home/user/.cache/gdown/new'')
          (Some ''00000000000000000000000000000000'') True None demo_world)
     = Inl (AssertionError
        (mismatch_msg ''hello000000000000000000000000000''
           ''00000000000000000000000000000000''))
   \<and> lookup (snd (cached_download demo_env (Some ''u'')
          (Some ''/home/user/.cache/gdown/new'')
          (Some ''00000000000000000000000000000000'') True None demo_world))
        ''/home/user/.cache/gdown/new'' = Some (File ''hello'')"
proof -
  let ?p = "''/home/user/.cache/gdown/new''"
  let ?m = "''00000000000000000000000000000000''"
  let ?f = "\<lambda>(p::string) (w::world). (Inl (ValueError ''not an archive'') :: exn + unit, w)"
  let ?w2 = "demo_world\<lparr>trace := trace demo_world @
           [Download (Some ''u'') ''/home/user/.cache/gdown/tmpa1/dl'' True,
            Locked ''/home/user/.cache/gdown/_dl_lock''],
        nodes := demo_nodes
           (''/home/user/.cache/gdown/tmpa1'' \<mapsto> Dir,
            ''/home/user/.cache/gdown/_dl_lock'' \<mapsto> File [],
            ''/home/user/.cache/gdown/new'' \<mapsto> File ''hello'')\<rparr>"
  have r: "resolve_path demo_env (Some ''u'') (Some ?p) = Inr ?p"
    by (simp add: resolve_path_def)
  have c: "check_existence demo_env ?p md5 True demo_world = (Inr None, demo_world)" for md5
    by (rule check_existence_absent) (simp add: exists_def demo_lookup_new)
  have s: "stage_and_transfer demo_env (Some ''u'') ?p True demo_world = (Inr (), ?w2)"
    by (rule demo_stage_and_transfer) simp_all
  have l: "lookup ?w2 ?p = Some (File ''hello'')"
    by (simp add: lookup_plain)
  have d: "hexdigest_of demo_env 65536 ''hello'' = ''hello000000000000000000000000000''"
    by (simp add: demo_hexdigest eval_nat_numeral)
  have a: "assert_md5sum demo_env ?p (Some ?m) True None ?w2 =
      (Inl (AssertionError (mismatch_msg ''hello000000000000000000000000000'' ?m)),
       emit (Opened ?p) ?w2)"
    using assert_md5sum_world_file [of ?m ?w2 ?p "''hello''" demo_env True None] l d
    by (simp add: say_def)
  have t: "truthy (Some ?m)" "\<not> truthy None" by (simp_all add: truthy_def)
  from placed_file_not_rolled_back [OF r c s, of None "Some ?f"]
  have 1: "cached_download demo_env (Some ''u'') (Some ?p) None True (Some ?f) demo_world
      = (Inl (ValueError ''not an archive''), emit (Postprocess ?p) ?w2)"
    using t by simp
  from placed_file_not_rolled_back [OF r c s, of "Some ?m" None]
  have 2: "cached_download demo_env (Some ''u'') (Some ?p) (Some ?m) True None demo_world
      = (Inl (AssertionError (mismatch_msg ''hello000000000000000000000000000'' ?m)),
         emit (Opened ?p) ?w2)"
    using t a by simp
  show ?thesis
    by (simp add: 1 2 l) (simp add: emit_def demo_world_def)
qed

subsection \<open>A stale cache entry\<close>

lemma finish_ok:
  assumes "finish env p md5 quiet postprocess w = (Inr r, w1)" and "truthy md5"
  shows "r = p \<and> (\<exists>m c. md5 = Some m \<and> lookup w p = Some (File c)
            \<and> hexdigest_of env 65536 c = m)
         \<and> (postprocess = None \<longrightarrow> nodes w1 = nodes w)"
proof -
  obtain ra wa where a: "assert_md5sum env p md5 quiet None w = (ra, wa)"
    by (cases "assert_md5sum env p md5 quiet None w") auto
  with assms obtain ok where ok: "ra = Inr ok"
    by (cases ra) (auto simp: finish_def)
  from assert_md5sum_ok [OF a [unfolded ok]]
  have 1: "\<exists>m c. md5 = Some m \<and> lookup w p = Some (File c) \<and> hexdigest_of env 65536 c = m"
    by auto
  have 2: "nodes wa = nodes w" using a by (rule assert_md5sum_nodes)
  from assms a ok have "r = p \<and> (postprocess = None \<longrightarrow> w1 = wa)"
    by (auto simp: finish_def split: option.splits prod.splits sum.splits)
  with 1 2 show ?thesis by auto
qed

lemma stage_and_transfer_invoked:
  assumes "stage_and_transfer env url p quiet w = (Inr u, w1)"
  shows "\<exists>t. Download url (join t ''dl'') quiet \<in> set (trace w1)"
proof -
  let ?l = "join (cache_root env) ''_dl_lock''"
  obtain r wa where mk: "makedirs (dirname p) w = (r, wa)"
    by (cases "makedirs (dirname p) w") auto
  have sg: "stage env url p quiet ?l wa = (Inr u, w1)"
    using assms mk by (cases r) (auto simp: stage_and_transfer_def Let_def split: if_splits)
  obtain r2 wb where md: "mkdtemp (candidates env) (cache_root env) wa = (r2, wb)"
    by (cases "mkdtemp (candidates env) (cache_root env) wa") auto
  with sg obtain t where t: "r2 = Inr t" by (cases r2) (auto simp: stage_def)
  from sg md t have tr: "transfer env url p quiet ?l t wb = (Inr u, w1)"
    by (auto simp: stage_def split: prod.splits sum.splits if_splits)
  let ?w0 = "if \<not> quiet
      then emit (Stderr (if p \<noteq> [] then ''Cached Downloading: '' @ p
                         else ''Cached Downloading...'')) wb
      else wb"
  obtain r3 wc where d: "download env url (join t ''dl'') quiet ?w0 = (r3, wc)"
    by (cases "download env url (join t ''dl'') quiet ?w0") auto
  with tr obtain u0 where r3: "r3 = Inr u0" by (cases r3) (auto simp: transfer_def Let_def)
  obtain r4 wl where lk: "acquire_lock ?l wc = (r4, wl)"
    by (cases "acquire_lock ?l wc") auto
  with tr d r3 obtain u1 where r4: "r4 = Inr u1"
    by (cases r4) (auto simp: transfer_def Let_def)
  from tr d r3 lk r4 have mv: "move (join t ''dl'') p wl = (Inr u, w1)"
    by (simp add: transfer_def Let_def)
  have "trace w1 = trace wl" using mv by (rule move_trace)
  also have "\<dots> = trace wc @ [Locked ?l]" using lk by (rule acquire_lock_trace)
  finally have "set (trace wc) \<subseteq> set (trace w1)" by auto
  moreover have "Download url (join t ''dl'') quiet \<in> set (trace wc)"
    using d by (rule download_invoked)
  ultimately show ?thesis by blast
qed

text \<open>
  Claim C3: when a file is at the destination and the supplied checksum of 32 characters
  differs from its digest, the mismatch does not fail the call: the message of the
  \<^verbatim>\<open>AssertionError\<close> is written to the error stream (also under \<^verbatim>\<open>quiet\<close>) and the
  call goes on with the download phase from there. If the call then returns, it returns
  the destination, the transport was invoked, and the file that the move put at the
  destination has the supplied checksum as its digest (it is still there at the return
  unless a postprocess hook has touched it).
\<close>

theorem stale_entry_redownloaded:
  assumes "resolve_path env url path = Inr p"
    and "md5 = Some m" and "length m = 32"
    and "lookup w p = Some (File c)"
    and "hexdigest_of env 65536 c \<noteq> m"
  shows "check_existence env p md5 quiet w =
       (Inr None,
        emit (Stderr (mismatch_msg (hexdigest_of env 65536 c) m))
          (emit (Opened p) (say quiet (''Computing MD5: '' @ p) w)))
     \<and> cached_download env url path md5 quiet postprocess w =
       (case stage_and_transfer env url p quiet
               (emit (Stderr (mismatch_msg (hexdigest_of env 65536 c) m))
                  (emit (Opened p) (say quiet (''Computing MD5: '' @ p) w))) of
          (Inl e, w2) \<Rightarrow> (Inl e, w2)
        | (Inr u, w2) \<Rightarrow> finish env p md5 quiet postprocess w2)
     \<and> (\<forall>r w3. cached_download env url path md5 quiet postprocess w = (Inr r, w3) \<longrightarrow>
          r = p
          \<and> (\<exists>w2 c2 t. stage_and_transfer env url p quiet
                 (emit (Stderr (mismatch_msg (hexdigest_of env 65536 c) m))
                    (emit (Opened p) (say quiet (''Computing MD5: '' @ p) w))) = (Inr (), w2)
               \<and> Download url (join t ''dl'') quiet \<in> set (trace w2)
               \<and> lookup w2 p = Some (File c2) \<and> hexdigest_of env 65536 c2 = m
               \<and> (postprocess = None \<longrightarrow> lookup w3 p = Some (File c2))))"
proof -
  let ?w1 = "emit (Stderr (mismatch_msg (hexdigest_of env 65536 c) m))
          (emit (Opened p) (say quiet (''Computing MD5: '' @ p) w))"
  have t: "truthy md5" using assms(2,3) by (auto simp: truthy_def)
  have ex: "exists w p" using assms(4) by (simp add: exists_def)
  have ck: "check_existence env p md5 quiet w = (Inr None, ?w1)"
    using ex t assms(2) assert_md5sum_world_file [OF assms(3,4,5)]
    by (simp add: check_existence_def)
  have cd: "cached_download env url path md5 quiet postprocess w =
       (case stage_and_transfer env url p quiet ?w1 of
          (Inl e, w2) \<Rightarrow> (Inl e, w2)
        | (Inr u, w2) \<Rightarrow> finish env p md5 quiet postprocess w2)"
    using assms(1) ck by (simp add: cached_download_def)
  have "r = p
          \<and> (\<exists>w2 c2 t. stage_and_transfer env url p quiet ?w1 = (Inr (), w2)
               \<and> Download url (join t ''dl'') quiet \<in> set (trace w2)
               \<and> lookup w2 p = Some (File c2) \<and> hexdigest_of env 65536 c2 = m
               \<and> (postprocess = None \<longrightarrow> lookup w3 p = Some (File c2)))"
    if ret: "cached_download env url path md5 quiet postprocess w = (Inr r, w3)" for r w3
  proof -
    obtain rs w2 where st: "stage_and_transfer env url p quiet ?w1 = (rs, w2)"
      by (cases "stage_and_transfer env url p quiet ?w1") auto
    with ret cd have rs: "rs = Inr ()" and fin: "finish env p md5 quiet postprocess w2 = (Inr r, w3)"
      by (cases rs; simp)+
    from stage_and_transfer_invoked [OF st [unfolded rs]]
    obtain t where dl: "Download url (join t ''dl'') quiet \<in> set (trace w2)" by auto
    from finish_ok [OF fin t] assms(2) obtain c2 where
      f: "r = p" "lookup w2 p = Some (File c2)" "hexdigest_of env 65536 c2 = m"
         "postprocess = None \<longrightarrow> nodes w3 = nodes w2"
      by auto
    have "postprocess = None \<longrightarrow> lookup w3 p = Some (File c2)"
      using f(2,4) lookup_cong [of w3 w2 p] by auto
    with st rs dl f show ?thesis by auto
  qed
  with ck cd show ?thesis by blast
qed

theorem stale_entry_redownloaded_witness:
  "cached_download demo_env (Some ''u'') (Some ''/home/user/.cache/gdown/stale'')
      (Some ''hello000000000000000000000000000'') True None demo_world
   = (Inr ''/home/user/.cache/gdown/stale'',
      demo_world\<lparr>trace :=
           [Opened ''/home/user/.cache/gdown/stale'',
            Stderr (mismatch_msg ''old00000000000000000000000000000''
                      ''hello000000000000000000000000000''),
            Download (Some ''u'') ''/home/user/.cache/gdown/tmpa1/dl'' True,
            Locked ''/home/user/.cache/gdown/_dl_lock'',
            Opened ''/home/user/.cache/gdown/stale''],
        nodes := demo_nodes
           (''/home/user/.cache/gdown/tmpa1'' \<mapsto> Dir,
            ''/home/user/.cache/gdown/_dl_lock'' \<mapsto> File [],
            ''/home/user/.cache/gdown/stale'' \<mapsto> File ''hello'')\<rparr>)"
proof -
  let ?p = "''/home/user/.cache/gdown/stale''"
  let ?m = "''hello000000000000000000000000000''"
  let ?w1 = "emit (Stderr (mismatch_msg ''old00000000000000000000000000000'' ?m))
          (emit (Opened ?p) demo_world)"
  let ?w2 = "?w1\<lparr>trace := trace ?w1 @
           [Download (Some ''u'') ''/home/user/.cache/gdown/tmpa1/dl'' True,
            Locked ''/home/user/.cache/gdown/_dl_lock''],
        nodes := demo_nodes
           (''/home/user/.cache/gdown/tmpa1'' \<mapsto> Dir,
            ''/home/user/.cache/gdown/_dl_lock'' \<mapsto> File [],
            ''/home/user/.cache/gdown/stale'' \<mapsto> File ''hello'')\<rparr>"
  have r: "resolve_path demo_env (Some ''u'') (Some ?p) = Inr ?p"
    by (simp add: resolve_path_def)
  have n: "length ?m = 32" by simp
  have d: "hexdigest_of demo_env 65536 ''old'' \<noteq> ?m"
    by (simp add: demo_hexdigest eval_nat_numeral)
  have d1: "hexdigest_of demo_env 65536 ''old'' = ''old00000000000000000000000000000''"
    by (simp add: demo_hexdigest eval_nat_numeral)
  have d2: "hexdigest_of demo_env 65536 ''hello'' = ?m"
    by (simp add: demo_hexdigest eval_nat_numeral)
  have s: "stage_and_transfer demo_env (Some ''u'') ?p True ?w1 = (Inr (), ?w2)"
    by (rule demo_stage_and_transfer) simp_all
  have l: "lookup ?w2 ?p = Some (File ''hello'')"
    by (simp add: lookup_plain)
  have f: "finish demo_env ?p (Some ?m) True None ?w2 = (Inr ?p, emit (Opened ?p) ?w2)"
    using assert_md5sum_file [OF n l, of demo_env True None] d2
    by (simp add: finish_def truthy_def say_def)
  have w1: "emit (Stderr (mismatch_msg (hexdigest_of demo_env 65536 ''old'') ?m))
          (emit (Opened ?p) (say True (''Computing MD5: '' @ ?p) demo_world)) = ?w1"
    by (simp add: d1 say_def)
  from stale_entry_redownloaded [OF r refl n demo_lookup_stale d, of True None]
  have "cached_download demo_env (Some ''u'') (Some ?p) (Some ?m) True None demo_world
      = (case stage_and_transfer demo_env (Some ''u'') ?p True ?w1 of
          (Inl e, w2) \<Rightarrow> (Inl e, w2)
        | (Inr u, w2) \<Rightarrow> finish demo_env ?p (Some ?m) True None w2)"
    unfolding w1 by blast
  then have "cached_download demo_env (Some ''u'') (Some ?p) (Some ?m) True None demo_world
      = (Inr ?p, emit (Opened ?p) ?w2)"
    by (simp only: s f prod.case sum.case)
  then show ?thesis by (simp add: emit_def demo_world_def)
qed

subsection \<open>Creating the parent directory\<close>

lemma demo_relative_run:
  "cached_download demo_env (Some ''u'') (Some ''out.bin'') None True None demo_world =
     (Inr ''out.bin'',
      demo_world\<lparr>trace :=
           [Download (Some ''u'') ''/home/user/.cache/gdown/tmpa1/dl'' True,
            Locked ''/home/user/.cache/gdown/_dl_lock''],
        nodes := demo_nodes
           (''/home/user/.cache/gdown/tmpa1'' \<mapsto> Dir,
            ''/home/user/.cache/gdown/_dl_lock'' \<mapsto> File [],
            ''out.bin'' \<mapsto> File ''hello'')\<rparr>)"
proof -
  have c: "check_existence demo_env ''out.bin'' None True demo_world = (Inr None, demo_world)"
    by (rule check_existence_absent)
      (simp add: exists_def lookup_plain demo_world_def demo_nodes_def)
  have s: "stage_and_transfer demo_env (Some ''u'') ''out.bin'' True demo_world =
     (Inr (),
      demo_world\<lparr>trace := trace demo_world @
           [Download (Some ''u'') ''/home/user/.cache/gdown/tmpa1/dl'' True,
            Locked ''/home/user/.cache/gdown/_dl_lock''],
        nodes := demo_nodes
           (''/home/user/.cache/gdown/tmpa1'' \<mapsto> Dir,
            ''/home/user/.cache/gdown/_dl_lock'' \<mapsto> File [],
            ''out.bin'' \<mapsto> File ''hello'')\<rparr>)"
    by (rule demo_stage_and_transfer) simp_all
  show ?thesis
    by (simp add: cached_download_def resolve_path_def c s finish_def truthy_def)
      (simp add: demo_world_def)
qed

text \<open>
  Claim C4, as stated: a failure to create the destination's parent directory other than
  ``already exists'' propagates to the caller. For a destination given as a bare file
  name the parent is the empty path, \<^verbatim>\<open>os.makedirs("")\<close> raises \<^verbatim>\<open>FileNotFoundError\<close>,
  and the call passes over it and returns the destination.
\<close>

theorem parent_directory_counterexample:
  "makedirs (dirname ''out.bin'') demo_world = (Inl (FileNotFoundError []), demo_world)
   \<and> fst (cached_download demo_env (Some ''u'') (Some ''out.bin'') None True None demo_world)
       = Inr ''out.bin''"
  by (simp add: demo_relative_run) (simp add: dirname_def makedirs_empty)

text \<open>
  Claim C4, amended: during the staging step \<^verbatim>\<open>cached_download\<close> tries to create the
  destination's parent directory. When that succeeds the directory exists. Every
  \<^verbatim>\<open>OSError\<close> of the attempt, ``already exists'' and any other alike, is passed over
  silently and the call goes on to the staged transfer in the unchanged world; only an
  exception that is not an \<^verbatim>\<open>OSError\<close> propagates to the caller.
\<close>

theorem parent_directory_errors:
  assumes "resolve_path env url path = Inr p"
    and "check_existence env p md5 quiet w = (Inr None, w1)"
    and "makedirs (dirname p) w1 = (r, w2)"
  shows "(\<forall>e. r = Inl e \<and> \<not> is_OSError e \<longrightarrow>
            cached_download env url path md5 quiet postprocess w = (Inl e, w2))
     \<and> ((\<exists>e. r = Inl e \<and> is_OSError e) \<longrightarrow> w2 = w1)
     \<and> ((\<forall>e. r = Inl e \<longrightarrow> is_OSError e) \<longrightarrow>
            cached_download env url path md5 quiet postprocess w =
              (case stage env url p quiet (join (cache_root env) ''_dl_lock'') w2 of
                 (Inl e, w3) \<Rightarrow> (Inl e, w3)
               | (Inr u, w3) \<Rightarrow> finish env p md5 quiet postprocess w3))
     \<and> (r = Inr () \<longrightarrow> lookup w2 (dirname p) = Some Dir)"
proof (intro conjI allI impI)
  fix e
  assume "r = Inl e \<and> \<not> is_OSError e"
  then have "stage_and_transfer env url p quiet w1 = (Inl e, w2)"
    using assms(3) by (simp add: stage_and_transfer_def Let_def)
  then show "cached_download env url path md5 quiet postprocess w = (Inl e, w2)"
    using assms(1,2) by (simp add: cached_download_def)
next
  assume "\<exists>e. r = Inl e \<and> is_OSError e"
  then show "w2 = w1" using assms(3) by (auto dest: makedirs_error_world)
next
  assume a: "\<forall>e. r = Inl e \<longrightarrow> is_OSError e"
  have "stage_and_transfer env url p quiet w1 =
      stage env url p quiet (join (cache_root env) ''_dl_lock'') w2"
    using assms(3) a by (cases r) (simp_all add: stage_and_transfer_def Let_def)
  then show "cached_download env url path md5 quiet postprocess w =
              (case stage env url p quiet (join (cache_root env) ''_dl_lock'') w2 of
                 (Inl e, w3) \<Rightarrow> (Inl e, w3)
               | (Inr u, w3) \<Rightarrow> finish env p md5 quiet postprocess w3)"
    using assms(1,2) by (simp add: cached_download_def)
next
  assume "r = Inr ()"
  then show "lookup w2 (dirname p) = Some Dir"
    using assms(3) by (auto dest: makedirs_parent_dir)
qed

theorem parent_directory_errors_witness:
  "cached_download demo_env (Some ''u'') (Some [CHR 0x00, CHR ''/'', CHR ''x'']) None True None
      demo_world = (Inl (ValueError ''embedded null byte''), demo_world)
   \<and> cached_download demo_env (Some ''u'') (Some ''out.bin'') None True None demo_world =
      (case stage demo_env (Some ''u'') ''out.bin'' True
              (join (cache_root demo_env) ''_dl_lock'') demo_world of
         (Inl e, w3) \<Rightarrow> (Inl e, w3)
       | (Inr u, w3) \<Rightarrow> finish demo_env ''out.bin'' None True None w3)
   \<and> lookup (snd (makedirs (dirname ''/home/user/.cache/gdown/sub/f'') demo_world))
        ''/home/user/.cache/gdown/sub'' = Some Dir"
proof -
  let ?z = "[CHR 0x00, CHR ''/'', CHR ''x'']"
  let ?s = "''/home/user/.cache/gdown/sub/f''"
  have r: "resolve_path demo_env (Some ''u'') (Some q) = Inr q" for q
    by (simp add: resolve_path_def)
  have c: "check_existence demo_env q None True demo_world = (Inr None, demo_world)"
    if "lookup demo_world q = None" for q
    by (rule check_existence_absent) (simp add: exists_def that)
  have lz: "lookup demo_world ?z = None"
    by (simp add: lookup_plain demo_world_def demo_nodes_def)
  have lo: "lookup demo_world ''out.bin'' = None"
    by (simp add: lookup_plain demo_world_def demo_nodes_def)
  have ls: "lookup demo_world ?s = None"
    by (simp add: lookup_plain demo_world_def demo_nodes_def)
  have mz: "makedirs (dirname ?z) demo_world = (Inl (ValueError ''embedded null byte''), demo_world)"
    by (simp add: dirname_def is_root_def makedirs_def Let_def)
  have mo: "makedirs (dirname ''out.bin'') demo_world = (Inl (FileNotFoundError []), demo_world)"
    by (simp add: dirname_def makedirs_empty)
  have ds: "dirname ?s = ''/home/user/.cache/gdown/sub''" by (simp add: dirname_def is_root_def)
  have an: "ancestors ''/home/user/.cache/gdown/sub'' =
      [''/home'', ''/home/user'', ''/home/user/.cache'', ''/home/user/.cache/gdown'']"
    by (simp add: ancestors_def upt_rec)
  have ms: "fst (makedirs (dirname ?s) demo_world) = Inr ()"
    by (simp add: ds makedirs_def Let_def key_plain an exists_def lookup_plain demo_world_def
        demo_nodes_def)
  have ms': "makedirs (dirname ?s) demo_world = (Inr (), snd (makedirs (dirname ?s) demo_world))"
    using ms by (metis prod.collapse)
  from parent_directory_errors [OF r c [OF lz] mz, of None]
  have 1: "cached_download demo_env (Some ''u'') (Some ?z) None True None demo_world
      = (Inl (ValueError ''embedded null byte''), demo_world)"
    by simp
  from parent_directory_errors [OF r c [OF lo] mo, of None]
  have 2: "cached_download demo_env (Some ''u'') (Some ''out.bin'') None True None demo_world =
      (case stage demo_env (Some ''u'') ''out.bin'' True
              (join (cache_root demo_env) ''_dl_lock'') demo_world of
         (Inl e, w3) \<Rightarrow> (Inl e, w3)
       | (Inr u, w3) \<Rightarrow> finish demo_env ''out.bin'' None True None w3)"
    by simp
  from parent_directory_errors [OF r c [OF ls] ms', of None]
  have 3: "lookup (snd (makedirs (dirname ?s) demo_world)) ''/home/user/.cache/gdown/sub''
      = Some Dir"
    by (simp add: ds)
  from 1 2 3 show ?thesis by simp
qed

subsection \<open>A destination spelled with a trailing slash\<close>

text \<open>
  The destination \<^verbatim>\<open>newdir/\<close> does not exist at the check; its parent, \<^verbatim>\<open>newdir\<close>, is
  created; the move then finds a directory at the destination and puts the file into it
  under the name of the staging file. The call returns the destination as it was given.
\<close>

lemma trailing_slash_destination:
  "fst (cached_download demo_env (Some ''u'') (Some ''newdir/'') None True None demo_world)
     = Inr ''newdir/''
   \<and> lookup (snd (cached_download demo_env (Some ''u'') (Some ''newdir/'') None True None
        demo_world)) ''newdir/'' = Some Dir
   \<and> lookup (snd (cached_download demo_env (Some ''u'') (Some ''newdir/'') None True None
        demo_world)) ''newdir/dl'' = Some (File ''hello'')"
proof -
  let ?p = "''newdir/''"
  let ?t = "''/home/user/.cache/gdown/tmpa1''"
  let ?tmp = "''/home/user/.cache/gdown/tmpa1/dl''"
  let ?l = "''/home/user/.cache/gdown/_dl_lock''"
  let ?w2 = "put ''newdir'' Dir demo_world"
  let ?w3 = "put ?t Dir ?w2"
  let ?wd = "put ?tmp (File ''hello'') (emit (Download (Some ''u'') ?tmp True) ?w3)"
  let ?wl = "put ?l (File []) (emit (Locked ?l) ?wd)"
  let ?wf = "?wl\<lparr>nodes := ((nodes ?wl)(?tmp := None))(''newdir/dl'' \<mapsto> File ''hello'')\<rparr>"
  have nd: "nodes demo_world = demo_nodes" by (simp add: demo_world_def)
  have st: "strip_slashes ?p = ''newdir''" by (simp add: strip_slashes_def)
  have tr: "trailing ?p" "\<not> is_root ?p" by (simp_all add: trailing_def is_root_def)
  have lp: "lookup w ?p = (case nodes w ''newdir'' of Some Dir \<Rightarrow> Some Dir | _ \<Rightarrow> None)" for w
    using tr by (simp add: lookup_def st)
  have c: "check_existence demo_env ?p None True demo_world = (Inr None, demo_world)"
    by (rule check_existence_absent) (simp add: exists_def lp nd demo_nodes_def)
  have d: "dirname ?p = ''newdir''" "dirname ''newdir/dl'' = ''newdir''"
    "dirname ?l = ''/home/user/.cache/gdown''"
    by (simp_all add: dirname_def is_root_def)
  have mk: "makedirs ''newdir'' demo_world = (Inr (), ?w2)"
    by (simp add: makedirs_def Let_def key_plain exists_def lookup_plain nd demo_nodes_def
        ancestors_def upt_rec)
  have md: "mkdtemp [''tmpa1'', ''tmpb2''] ''/home/user/.cache/gdown'' ?w2 = (Inr ?t, ?w3)"
    by (simp add: mkdtemp_def exists_def lookup_plain nodes_put nd demo_nodes_def usable_def
        join_def)
  have lk: "acquire_lock ?l ?wd = (Inr (), ?wl)"
    by (rule demo_lock) (simp_all add: nodes_put nd demo_nodes_def)
  have ld: "lookup ?wl ?p = Some Dir" by (simp add: lp nodes_put)
  have ky: "key ?tmp = ?tmp" "key ?p = ''newdir''"
    by (simp_all add: key_def is_root_def strip_slashes_def)
  have bn: "join ?p (basename ?tmp) = ''newdir/dl''" by (simp add: join_def basename_def)
  have rn: "os_rename ?tmp ''newdir/dl'' ?wl = (Inr (), ?wf)"
    by (simp add: os_rename_def lookup_plain nodes_put parent_ok_def d trailing_def nd
        demo_nodes_def demo_world_def)
  have mv: "move ?tmp ?p ?wl = (Inr (), ?wf)"
    by (simp add: move_def Let_def ld ky bn rn exists_def lookup_plain nodes_put nd
        demo_nodes_def)
  have tf: "transfer demo_env (Some ''u'') ?p True ?l ?t ?w3 = (Inr (), ?wf)"
    by (simp add: transfer_def Let_def join_def demo_download lk mv)
  have sg: "stage demo_env (Some ''u'') ?p True ?l ?w2 = (Inr (), ?wf)"
    by (simp add: stage_def demo_root demo_candidates md tf)
  have sa: "stage_and_transfer demo_env (Some ''u'') ?p True demo_world = (Inr (), ?wf)"
    by (simp add: stage_and_transfer_def Let_def d mk demo_root join_def sg)
  have cd: "cached_download demo_env (Some ''u'') (Some ?p) None True None demo_world
      = (Inr ?p, ?wf)"
    by (simp add: cached_download_def resolve_path_def c sa finish_def truthy_def)
  have "lookup ?wf ?p = Some Dir" by (simp add: lp nodes_put)
  moreover have "lookup ?wf ''newdir/dl'' = Some (File ''hello'')"
    by (simp add: lookup_plain)
  ultimately show ?thesis by (simp add: cd)
qed

subsection \<open>A destination that is the lock file\<close>

text \<open>
  When the transport returns without having written the staging file, the lock is taken
  and the move fails. If the destination is the path of the lock file, taking the lock has
  put an empty file there.
\<close>

lemma lock_path_destination:
  "lookup demo_world ''/home/user/.cache/gdown/_dl_lock'' = None
   \<and> fst (cached_download silent_env (Some ''u'') (Some ''/home/user/.cache/gdown/_dl_lock'')
          None True None demo_world)
       = Inl (FileNotFoundError ''/home/user/.cache/gdown/tmpa1/dl'')
   \<and> lookup (snd (cached_download silent_env (Some ''u'')
          (Some ''/home/user/.cache/gdown/_dl_lock'') None True None demo_world))
        ''/home/user/.cache/gdown/_dl_lock'' = Some (File [])"
proof -
  let ?t = "''/home/user/.cache/gdown/tmpa1''"
  let ?tmp = "''/home/user/.cache/gdown/tmpa1/dl''"
  let ?l = "''/home/user/.cache/gdown/_dl_lock''"
  let ?w3 = "put ?t Dir demo_world"
  let ?wd = "emit (Download (Some ''u'') ?tmp True) ?w3"
  let ?wl = "put ?l (File []) (emit (Locked ?l) ?wd)"
  have nd: "nodes demo_world = demo_nodes" by (simp add: demo_world_def)
  have l0: "lookup demo_world ?l = None" by (simp add: lookup_plain nd demo_nodes_def)
  have c: "check_existence silent_env ?l None True demo_world = (Inr None, demo_world)"
    by (rule check_existence_absent) (simp add: exists_def l0)
  have d: "dirname ?l = ''/home/user/.cache/gdown''" by (simp add: dirname_def is_root_def)
  have rt: "cache_root silent_env = ''/home/user/.cache/gdown''"
    "candidates silent_env = [''tmpa1'', ''tmpb2'']"
    by (simp_all add: cache_root_def silent_env_def demo_env_def join_def)
  have dl: "download silent_env (Some ''u'') ?tmp True ?w3 = (Inr (), ?wd)"
    by (simp add: download_def silent_env_def Let_def)
  have lk: "acquire_lock ?l ?wd = (Inr (), ?wl)"
    by (rule demo_lock) (simp_all add: nodes_put nd demo_nodes_def)
  have src: "lookup ?wl ?tmp = None" by (simp add: lookup_plain nodes_put nd demo_nodes_def)
  have mv: "move ?tmp ?l ?wl = (Inl (FileNotFoundError ?tmp), ?wl)"
    by (simp add: move_def Let_def os_rename_def copyfile_def src lookup_plain nodes_put nd
        demo_nodes_def)
  have tf: "transfer silent_env (Some ''u'') ?l True ?l ?t ?w3
      = (Inl (FileNotFoundError ?tmp), ?wl)"
    by (simp add: transfer_def Let_def join_def dl lk mv)
  have sg: "stage silent_env (Some ''u'') ?l True ?l demo_world
      = (Inl (FileNotFoundError ?tmp), rmtree ?t ?wl)"
    by (simp add: stage_def rt demo_mkdtemp tf)
  have sa: "stage_and_transfer silent_env (Some ''u'') ?l True demo_world
      = (Inl (FileNotFoundError ?tmp), rmtree ?t ?wl)"
    by (simp add: stage_and_transfer_def Let_def d demo_makedirs rt join_def sg)
  have cd: "cached_download silent_env (Some ''u'') (Some ?l) None True None demo_world
      = (Inl (FileNotFoundError ?tmp), rmtree ?t ?wl)"
    by (simp add: cached_download_def resolve_path_def c sa)
  have "lookup (rmtree ?t ?wl) ?l = Some (File [])"
    by (simp add: lookup_plain nodes_rmtree inside_def nodes_put)
  with l0 cd show ?thesis by simp
qed

end
